theory Spec2Isabelle
  imports Main "HOL-Library.Sublist" "HOL-Library.Word"
begin

section \<open>The EWS proxy translators: SOAP to JSON and JSON to SOAP\<close>

text \<open>
  A shallow embedding of \<^verbatim>\<open>soap2json.go\<close>, \<^verbatim>\<open>json2soap.go\<close> and
  \<^verbatim>\<open>ews_types.go\<close>. Pointers between registry types are type names looked up in the
  table \<open>ewsTypes\<close>, as \<^verbatim>\<open>Initialize\<close> resolves them; a name the table does not hold is a
  nil pointer. Go errors are values of \<open>error\<close>; a run-time panic is the error \<open>Panic\<close>.
\<close>

subsection \<open>JSON values\<close>

text \<open>
  One type for both directions. \<open>JNull\<close> is Go's nil interface, \<open>JNumber\<close> a
  \<^verbatim>\<open>json.Number\<close> (its decimal text), \<open>JInt\<close> a Go \<^verbatim>\<open>int\<close> (only the enum index
  of \<^verbatim>\<open>convertSimpleToJson\<close>), \<open>JArray\<close> a \<^verbatim>\<open>[]interface{}\<close>,
  \<open>JsonList\<close> a slice whose dynamic type is the named type \<^verbatim>\<open>JsonList\<close> (a type
  assertion to \<^verbatim>\<open>[]interface{}\<close> fails on it), and \<open>JObject\<close> the members of a
  \<^verbatim>\<open>json.OrderedObject\<close> or, on the decoding side, of a \<^verbatim>\<open>map[string]interface{}\<close>.
\<close>

datatype json =
    JNull
  | JBool bool
  | JNumber string
  | JInt int
  | JString string
  | JArray "json list"
  | JsonList "json list"
  | JObject "(string \<times> json) list"

type_synonym members = "(string \<times> json) list"

subsection \<open>Errors\<close>

datatype panic = NilPointer | IndexOutOfRange | TypeAssertion

datatype error =
    EOF
  | Panic panic
  | NotASoapDocument
  | MultipleHeaders
  | MultipleBodies
  | WantedEnd
  | WantedStart
  | UnknownOperation string
  | InvalidReturnValue json string
  | NoTypeInSpecification
  | ListHasAttributes string
  | UnknownAttribute string string
  | UnknownType string
  | InconsistentListType
  | KeyCollision string string
  | CannotFindItems string
  | CannotConvertItems string
  | ItemNotObject json
  | UnexpectedSimpleContent string json
  | ExpectedSimpleType json
  | AtoiError string
  | NoHint members
  | HintNotFound string string
  | InvalidChangeType
  | IsASimpleType string
  | NoListElement string
  | ExtraElements string members
  | CouldNotDetermineListType
  | ExpectedObject json
  | StartTagNoName
  | EndTagNoName
  | EndTagWithoutStart string
  | EndTagMismatch string string
  | InvalidNumberLiteral string
  | Wrap string error

subsection \<open>The type registry (\<^verbatim>\<open>ews_types.go\<close>)\<close>

definition T_BOOL :: int where "T_BOOL = 0"
definition T_NUM :: int where "T_NUM = 1"
definition T_STR :: int where "T_STR = 2"
definition T_ENUM :: int where "T_ENUM = 3"
definition T_LIST :: int where "T_LIST = 4"

lemmas simple_kinds = T_BOOL_def T_NUM_def T_STR_def T_ENUM_def T_LIST_def

text \<open>\<^verbatim>\<open>element\<close>: only the fields the translators read (on \<^verbatim>\<open>Attributes\<close>).\<close>

record element =
  XN :: string
  JN :: string

text \<open>\<^verbatim>\<open>EwsXmlElement\<close>; \<open>xe_Type\<close> is the name of the type pointed to.\<close>

record EwsXmlElement =
  xe_JsonName :: string
  xe_Type :: string
  xe_IsList :: bool

text \<open>\<^verbatim>\<open>EwsJsonType\<close>; \<open>jt_Type\<close> is the name of the type pointed to.\<close>

record EwsJsonType =
  jt_Type :: string
  jt_XmlTag :: string

datatype JsonHookFunc = ResolveNamesHook

datatype XmlChoiceFunc = SyncFolderHierarchyChangesHook

text \<open>
  \<^verbatim>\<open>EwsJsonElement\<close>. \<open>je_Types\<close> is \<open>None\<close> for a nil map; the maps are association
  lists read with \<open>map_of\<close>.
\<close>

record EwsJsonElement =
  je_JsonName :: string
  je_Types :: "(string \<times> EwsJsonType) list option"
  je_Elements :: "(string \<times> EwsJsonType) list"
  je_SingleType :: "EwsJsonType option"
  je_IsList :: bool
  je_XmlChoiceHook :: "XmlChoiceFunc option"

text \<open>
  \<^verbatim>\<open>EwsType\<close>. \<open>TypeByElementName\<close>, \<open>Attrs\<close> and \<open>AttrsNames\<close> are the Go maps as
  association lists (Go ranges over a map in no fixed order: the order of the list stands
  for any of them); \<open>Attrs\<close> and \<open>ListItemType\<close> hold type names.
\<close>

record EwsType =
  Name :: string
  Attributes :: "element list"
  TypeByElementName :: "(string \<times> EwsXmlElement) list"
  JsonDefaults :: "(string \<times> json) list"
  JsonElementList :: "EwsJsonElement list"
  JsonExtra :: "string list"
  Attrs :: "(string \<times> string) list"
  AttrsNames :: "(string \<times> string) list"
  IsSimple :: bool
  SimpleType :: int
  TextAttr :: string
  JsonType :: string
  IsList :: bool
  JsonListName :: string
  JsonListElement :: "EwsJsonElement option"
  EnumValues :: "string list"
  ListItemType :: "string option"

record OpDescriptor =
  Action :: string
  Request :: string
  Response :: EwsJsonElement
  BodyType :: string
  RequestType :: string

text \<open>
  The registry data of \<^verbatim>\<open>ews_data.go\<close> is a parameter of every function that reads it:
  the table of types, the table of operations and the two header descriptions.
\<close>

record registry =
  ewsTypes :: "string \<Rightarrow> EwsType option"
  EwsOperations :: "string \<Rightarrow> OpDescriptor option"
  EwsSoapRequestHeader :: EwsType
  EwsSoapResponseHeader :: EwsJsonElement

text \<open>The zero values \<^verbatim>\<open>EwsType{}\<close> and \<^verbatim>\<open>EwsJsonElement{}\<close>.\<close>

definition emptyType :: EwsType where
  "emptyType =
     \<lparr>Name = '''', Attributes = [], TypeByElementName = [], JsonDefaults = [],
      JsonElementList = [], JsonExtra = [], Attrs = [], AttrsNames = [], IsSimple = False,
      SimpleType = 0, TextAttr = '''', JsonType = '''', IsList = False, JsonListName = '''',
      JsonListElement = None, EnumValues = [], ListItemType = None\<rparr>"

definition emptyJsonElement :: EwsJsonElement where
  "emptyJsonElement =
     \<lparr>je_JsonName = '''', je_Types = None, je_Elements = [], je_SingleType = None,
      je_IsList = False, je_XmlChoiceHook = None\<rparr>"

text \<open>\<^verbatim>\<open>jsonHooks\<close> and \<^verbatim>\<open>xmlChoiceHooks\<close>, keyed by type name.\<close>

definition jsonHooks :: "string \<Rightarrow> JsonHookFunc option" where
  "jsonHooks n = (if n = ''ResolveNamesType'' then Some ResolveNamesHook else None)"

definition xmlChoiceHooks :: "string \<Rightarrow> XmlChoiceFunc option" where
  "xmlChoiceHooks n =
     (if n = ''SyncFolderHierarchyChangesType'' then Some SyncFolderHierarchyChangesHook else None)"

text \<open>\<^verbatim>\<open>Initialize\<close> sets \<^verbatim>\<open>v.JsonHook = jsonHooks[v.Name]\<close>.\<close>

definition JsonHook :: "EwsType \<Rightarrow> JsonHookFunc option" where
  "JsonHook typ = jsonHooks (Name typ)"

subsection \<open>Scalars (\<^verbatim>\<open>convertSimpleToJson\<close>, \<^verbatim>\<open>toString\<close>)\<close>

text \<open>The \<^verbatim>\<open>range\<close> loop over \<^verbatim>\<open>EnumValues\<close>, from index \<open>idx\<close> on.\<close>

fun findEnum :: "string list \<Rightarrow> string \<Rightarrow> nat \<Rightarrow> nat option" where
  "findEnum [] chardata idx = None"
| "findEnum (v # vs) chardata idx =
     (if v = chardata then Some idx else findEnum vs chardata (Suc idx))"

definition convertSimpleToJson :: "EwsType \<Rightarrow> string \<Rightarrow> json" where
  "convertSimpleToJson typ chardata =
     (if SimpleType typ = T_BOOL then
        (if chardata = ''true'' \<or> chardata = ''1'' then JBool True else JBool False)
      else if SimpleType typ = T_NUM then JNumber chardata
      else if SimpleType typ = T_ENUM then
        (case findEnum (EnumValues typ) chardata 0 of
           Some idx \<Rightarrow> JInt (int idx)
         | None \<Rightarrow> JString chardata)
      else JString chardata)"

fun toString :: "json \<Rightarrow> error + string" where
  "toString (JBool oo) = (if oo then Inr ''true'' else Inr ''false'')"
| "toString (JNumber oo) = Inr oo"
| "toString (JString oo) = Inr oo"
| "toString JNull = Inr ''''"
| "toString oo = Inl (ExpectedSimpleType oo)"

subsection \<open>XML tokens and the decoder\<close>

text \<open>
  The tokens of \<^verbatim>\<open>encoding/xml\<close>. \<open>TOther\<close> is a comment, a processing instruction or
  a directive. The decoder is the list of the tokens it has still to deliver; at its end
  \<^verbatim>\<open>Token()\<close> returns an error (\<open>EOF\<close>; a syntax error ends the list in the same way).
\<close>

datatype xml_name = XmlName (Space: string) (Local: string)
datatype Attr = Attr (attr_Name: xml_name) (attr_Value: string)
datatype StartElement = StartElement (el_Name: xml_name) (el_Attr: "Attr list")
datatype Token = TStart StartElement | TEnd xml_name | TCharData string | TOther

subsection \<open>\<^verbatim>\<open>OrderedObject\<close>\<close>

text \<open>
  The members in insertion order. The private index \<^verbatim>\<open>keys\<close> holds, for each key, the
  position of its only member; the model reads that position off the list.
\<close>

definition Get :: "members \<Rightarrow> string \<Rightarrow> json option" where
  "Get obj key = map_of obj key"

fun Set :: "members \<Rightarrow> string \<Rightarrow> json \<Rightarrow> members" where
  "Set [] key v = [(key, v)]"
| "Set (m # obj) key v = (if fst m = key then (fst m, v) # obj else m # Set obj key v)"

subsection \<open>XML to JSON (\<^verbatim>\<open>soap2json.go\<close>)\<close>

text \<open>\<^verbatim>\<open>strings.Trim(s, cutset)\<close>, and the cut set \<^verbatim>\<open>"\t\r\b\n "\<close>.\<close>

definition Trim :: "string \<Rightarrow> string \<Rightarrow> string" where
  "Trim s cs = rev (dropWhile (\<lambda>c. c \<in> set cs) (rev (dropWhile (\<lambda>c. c \<in> set cs) s)))"

definition cutset :: string where
  "cutset = [CHR 0x09, CHR 0x0D, CHR 0x08, CHR 0x0A, CHR '' '']"

text \<open>
  The local variables of \<^verbatim>\<open>processElement\<close>. \<^verbatim>\<open>ret\<close> is nil (\<open>RNil\<close>), the pointer
  \<^verbatim>\<open>obj\<close> itself (\<open>RObj\<close>: it then shows every later \<^verbatim>\<open>obj.Set\<close>), or another value.
\<close>

datatype ret = RNil | RObj | RVal json

record locals =
  obj :: "members option"
  listObj :: "json list"
  ret :: ret

text \<open>The loop of \<^verbatim>\<open>initRetObject\<close> that adds the attributes to the object.\<close>

fun initAttrs :: "registry \<Rightarrow> EwsType \<Rightarrow> Attr list \<Rightarrow> members \<Rightarrow> error + members" where
  "initAttrs reg typ [] ob = Inr ob"
| "initAttrs reg typ (attr # attrs) ob =
     (if Space (attr_Name attr) \<noteq> ''xmlns'' \<and> Local (attr_Name attr) \<noteq> ''xmlns'' then
        (case map_of (Attrs typ) (Local (attr_Name attr)) of
           Some atype \<Rightarrow>
             (case ewsTypes reg atype of
                None \<Rightarrow> Inl (Panic NilPointer)
              | Some at \<Rightarrow>
                  initAttrs reg typ attrs
                    (Set ob (case map_of (AttrsNames typ) (Local (attr_Name attr)) of
                               Some n \<Rightarrow> n | None \<Rightarrow> '''')
                       (convertSimpleToJson at (attr_Value attr))))
         | None \<Rightarrow> Inl (UnknownAttribute (Local (attr_Name attr)) (Name typ)))
      else initAttrs reg typ attrs ob)"

definition initRetObject :: "registry \<Rightarrow> StartElement \<Rightarrow> EwsType \<Rightarrow> error + locals" where
  "initRetObject reg el typ =
     (if \<not> IsSimple typ \<or> TextAttr typ \<noteq> '''' then
        if JsonListName typ \<noteq> '''' \<or> IsList typ then
          if \<exists>attr \<in> set (el_Attr el).
               Space (attr_Name attr) \<noteq> ''xmlns'' \<and> Local (attr_Name attr) \<noteq> ''xmlns''
          then Inl (ListHasAttributes (Name typ))
          else if JsonListName typ \<noteq> '''' then
            Inr \<lparr>obj = Some (Set (if JsonType typ \<noteq> ''''
                                  then Set [] ''__type'' (JString (JsonType typ)) else [])
                             (JsonListName typ) (JsonList [])),
                 listObj = [], ret = RObj\<rparr>
          else Inr \<lparr>obj = None, listObj = [], ret = RVal (JsonList [])\<rparr>
        else
          (case initAttrs reg typ (el_Attr el)
                  (if JsonType typ \<noteq> '''' then Set [] ''__type'' (JString (JsonType typ)) else []) of
             Inl e \<Rightarrow> Inl e
           | Inr ob \<Rightarrow> Inr \<lparr>obj = Some ob, listObj = [], ret = RObj\<rparr>)
      else Inr \<lparr>obj = None, listObj = [], ret = RNil\<rparr>)"

text \<open>
  The four ways in which \<^verbatim>\<open>processElement\<close> stores the value \<open>newItem\<close> of a child
  element; \<open>nextType\<close> is \<^verbatim>\<open>nextElem.Type\<close>. A method call on the nil \<^verbatim>\<open>obj\<close> panics.
\<close>

definition installChild ::
  "EwsType \<Rightarrow> EwsXmlElement \<Rightarrow> EwsType option \<Rightarrow> json \<Rightarrow> locals \<Rightarrow> error + locals" where
  "installChild typ nextElem nextType newItem st =
     (if JsonListName typ \<noteq> '''' then
        (case obj st of
           None \<Rightarrow> Inl (Panic NilPointer)
         | Some ob \<Rightarrow>
             Inr (st\<lparr>listObj := listObj st @ [newItem],
                     obj := Some (Set ob (JsonListName typ) (JArray (listObj st @ [newItem])))\<rparr>))
      else if IsList typ then
        Inr (st\<lparr>listObj := listObj st @ [newItem], ret := RVal (JArray (listObj st @ [newItem]))\<rparr>)
      else if xe_IsList nextElem then
        (case obj st of
           None \<Rightarrow> Inl (Panic NilPointer)
         | Some ob \<Rightarrow>
             (case Get ob (xe_JsonName nextElem) of
                Some elistIf \<Rightarrow>
                  (case elistIf of
                     JArray elist \<Rightarrow>
                       Inr (st\<lparr>obj := Some (Set ob (xe_JsonName nextElem)
                                              (JArray (elist @ [newItem])))\<rparr>)
                   | _ \<Rightarrow> Inl InconsistentListType)
              | None \<Rightarrow>
                  Inr (st\<lparr>obj := Some (Set ob (xe_JsonName nextElem) (JArray [newItem]))\<rparr>)))
      else
        (case nextType of
           None \<Rightarrow> Inl (Panic NilPointer)
         | Some nt \<Rightarrow>
             (case obj st of
                None \<Rightarrow> Inl (Panic NilPointer)
              | Some ob \<Rightarrow>
                  if Get ob (xe_JsonName nextElem) \<noteq> None
                  then Inl (KeyCollision (xe_JsonName nextElem) (Name typ))
                  else Inr (st\<lparr>obj := Some (Set ob (xe_JsonName nextElem)
                         (if newItem = JNull \<and> IsSimple nt \<and> SimpleType nt = T_STR
                          then JString '''' else newItem))\<rparr>))))"

text \<open>At the end element: the defaults, the hook, and the value returned.\<close>

fun insertDefaults :: "(string \<times> json) list \<Rightarrow> members \<Rightarrow> members" where
  "insertDefaults [] ob = ob"
| "insertDefaults (e # es) ob =
     insertDefaults es (if Get ob (fst e) = None then Set ob (fst e) (snd e) else ob)"

fun applyJsonHook :: "JsonHookFunc \<Rightarrow> EwsType \<Rightarrow> members \<Rightarrow> members" where
  "applyJsonHook ResolveNamesHook t ob =
     (if Get ob ''ContactDataShape'' = None
      then Set ob ''ContactDataShape'' (JString ''Default'') else ob)"

definition endElement :: "EwsType \<Rightarrow> locals \<Rightarrow> json" where
  "endElement typ st =
     (case ret st of
        RNil \<Rightarrow> JNull
      | RVal v \<Rightarrow> v
      | RObj \<Rightarrow>
          (case obj st of
             None \<Rightarrow> JNull
           | Some ob \<Rightarrow>
               JObject (case JsonHook typ of
                          None \<Rightarrow> insertDefaults (JsonDefaults typ) ob
                        | Some hook \<Rightarrow>
                            applyJsonHook hook typ (insertDefaults (JsonDefaults typ) ob))))"

text \<open>Non-empty character data, already trimmed.\<close>

definition charData :: "EwsType \<Rightarrow> string \<Rightarrow> locals \<Rightarrow> error + locals" where
  "charData typ chardata st =
     (if TextAttr typ \<noteq> '''' then
        (case obj st of
           None \<Rightarrow> Inl (Panic NilPointer)
         | Some ob \<Rightarrow>
             Inr (st\<lparr>obj := Some (Set ob (TextAttr typ) (convertSimpleToJson typ chardata)),
                     ret := RObj\<rparr>))
      else Inr (st\<lparr>ret := RVal (convertSimpleToJson typ chardata)\<rparr>))"

text \<open>
  \<^verbatim>\<open>processElement\<close> and its token loop. Both return the value and the decoder after
  the end element.
\<close>

function (domintros)
  processElement ::
    "registry \<Rightarrow> Token list \<Rightarrow> StartElement \<Rightarrow> EwsType option \<Rightarrow> error + (json \<times> Token list)"
and elementLoop ::
    "registry \<Rightarrow> Token list \<Rightarrow> StartElement \<Rightarrow> EwsType \<Rightarrow> locals
       \<Rightarrow> error + (json \<times> Token list)"
where
  "processElement reg d el None = Inl NoTypeInSpecification"
| "processElement reg d el (Some typ) =
     (if el_Attr el \<noteq> [] then
        (case initRetObject reg el typ of
           Inl e \<Rightarrow> Inl e
         | Inr st \<Rightarrow> elementLoop reg d el typ st)
      else elementLoop reg d el typ \<lparr>obj = None, listObj = [], ret = RNil\<rparr>)"
| "elementLoop reg [] el typ st = Inl EOF"
| "elementLoop reg (TStart tokel # d) el typ st =
     (case (if ret st = RNil then initRetObject reg el typ else Inr st) of
        Inl e \<Rightarrow> Inl e
      | Inr st1 \<Rightarrow>
          (case map_of (TypeByElementName typ) (Local (el_Name tokel)) of
             None \<Rightarrow> Inl (UnknownType (Local (el_Name tokel)))
           | Some nextElem \<Rightarrow>
               (case processElement reg d tokel (ewsTypes reg (xe_Type nextElem)) of
                  Inl e \<Rightarrow> Inl e
                | Inr (newItem, d') \<Rightarrow>
                    (case installChild typ nextElem (ewsTypes reg (xe_Type nextElem))
                            newItem st1 of
                       Inl e \<Rightarrow> Inl e
                     | Inr st2 \<Rightarrow> elementLoop reg d' el typ st2))))"
| "elementLoop reg (TEnd n # d) el typ st = Inr (endElement typ st, d)"
| "elementLoop reg (TCharData tokel # d) el typ st =
     (if length (Trim tokel cutset) \<noteq> 0 then
        (case (if ret st = RNil then initRetObject reg el typ else Inr st) of
           Inl e \<Rightarrow> Inl e
         | Inr st1 \<Rightarrow>
             (case charData typ (Trim tokel cutset) st1 of
                Inl e \<Rightarrow> Inl e
              | Inr st2 \<Rightarrow> elementLoop reg d el typ st2))
      else elementLoop reg d el typ st)"
| "elementLoop reg (TOther # d) el typ st = elementLoop reg d el typ st"
  by pat_completeness auto

text \<open>Every call returns a shorter decoder; with that the recursion terminates.\<close>

lemma processElement_shorter_dom:
  "processElement_elementLoop_dom (Inl (reg, d, el, typ')) \<Longrightarrow>
     (\<forall>v d'. processElement reg d el typ' = Inr (v, d') \<longrightarrow> length d' < length d)"
  "processElement_elementLoop_dom (Inr (reg, d, el, typ, st)) \<Longrightarrow>
     (\<forall>v d'. elementLoop reg d el typ st = Inr (v, d') \<longrightarrow> length d' < length d)"
proof (induct rule: processElement_elementLoop.pinduct)
  case (1 reg d el)
  then show ?case by (simp add: processElement.psimps)
next
  case (2 reg d el ty)
  then show ?case
    by (auto simp: processElement.psimps split: if_splits sum.splits)
next
  case (3 reg el ty st)
  then show ?case by (simp add: elementLoop.psimps)
next
  case (4 reg tokel d el ty st)
  then show ?case
    apply (simp add: elementLoop.psimps split: if_splits sum.splits option.splits prod.splits)
    apply fastforce+
    done
next
  case (5 reg n d el ty st)
  then show ?case by (simp add: elementLoop.psimps)
next
  case (6 reg tokel d el ty st)
  then show ?case
    apply (simp add: elementLoop.psimps split: if_splits sum.splits)
    apply fastforce+
    done
next
  case (7 reg d el ty st)
  then show ?case by (fastforce simp add: elementLoop.psimps)
qed

termination processElement
proof (relation "measure (case_sum (\<lambda>(reg, d, el, typ'). 2 * length d + 1)
                                   (\<lambda>(reg, d, el, typ, st). 2 * length d))")
qed (auto dest: processElement_shorter_dom)

lemma processElement_shorter_aux:
  "\<forall>v d'. processElement reg d el typ' = Inr (v, d') \<longrightarrow> length d' < length d"
  "\<forall>v d'. elementLoop reg d el typ st = Inr (v, d') \<longrightarrow> length d' < length d"
proof (induct reg d el typ' and reg d el "typ" st rule: processElement_elementLoop.induct)
  case (4 reg tokel d el ty st)
  then show ?case
    apply (simp split: if_splits sum.splits option.splits prod.splits)
    apply fastforce+
    done
next
  case (6 reg tokel d el ty st)
  then show ?case
    apply (simp split: if_splits sum.splits)
    apply fastforce+
    done
qed (auto split: if_splits sum.splits)

lemma processElement_shorter:
  "processElement reg d el typ' = Inr (v, d') \<Longrightarrow> length d' < length d"
  using processElement_shorter_aux(1) by blast

fun getNextElement :: "Token list \<Rightarrow> bool \<Rightarrow> error + (Token \<times> Token list)" where
  "getNextElement [] wantStart = Inl EOF"
| "getNextElement (TStart el # x) wantStart =
     (if wantStart then Inr (TStart el, x) else Inl WantedEnd)"
| "getNextElement (TEnd el # x) wantStart =
     (if \<not> wantStart then Inr (TEnd el, x) else Inl WantedStart)"
| "getNextElement (tok # x) wantStart = getNextElement x wantStart"

definition getNextStartElement :: "Token list \<Rightarrow> error + (StartElement \<times> Token list)" where
  "getNextStartElement x =
     (case getNextElement x True of
        Inl e \<Rightarrow> Inl e
      | Inr (el, x') \<Rightarrow>
          (case el of TStart se \<Rightarrow> Inr (se, x') | _ \<Rightarrow> Inl (Panic TypeAssertion)))"

text \<open>The result is the \<^verbatim>\<open>json.OrderedObject\<close>, \<open>None\<close> when it is nil.\<close>

definition processSoapElement ::
  "registry \<Rightarrow> Token list \<Rightarrow> StartElement \<Rightarrow> EwsType option \<Rightarrow> string
     \<Rightarrow> error + (members option \<times> Token list)" where
  "processSoapElement reg d el typ jsonType =
     (case processElement reg d el typ of
        Inl e \<Rightarrow> Inl e
      | Inr (anyElem, d') \<Rightarrow>
          if anyElem = JNull then Inr (None, d')
          else
            (case anyElem of
               JObject ob \<Rightarrow>
                 if jsonType \<noteq> '''' then
                   (case ob of
                      [] \<Rightarrow> Inr (Some [(''__type'', JString jsonType)], d')
                    | m # ms \<Rightarrow>
                        if fst m = ''__type'' then Inr (Some ((fst m, JString jsonType) # ms), d')
                        else Inr (Some ([(''__type'', JString jsonType)] @ ob), d'))
                 else Inr (Some ob, d')
             | _ \<Rightarrow> Inl (InvalidReturnValue anyElem (Local (el_Name el)))))"

text \<open>
  The header hack of \<^verbatim>\<open>SOAP2JSON\<close>: the inner loop over the members of
  \<^verbatim>\<open>RequestServerVersion\<close> (\<open>cur\<close> is \<^verbatim>\<open>header[i].Value\<close>), and the outer loop.
\<close>

fun versionLoop :: "members \<Rightarrow> json \<Rightarrow> json" where
  "versionLoop [] cur = cur"
| "versionLoop (kv2 # v) cur =
     versionLoop v
       (if fst kv2 = ''Version'' then
          (case snd kv2 of
             JString ver \<Rightarrow>
               JString (if prefix ''Exchange2007'' ver \<or> prefix ''Exchange2010'' ver
                        then ''Exchange2013'' else ver)
           | _ \<Rightarrow> cur)
        else cur)"

fun headerHack :: "members \<Rightarrow> members" where
  "headerHack [] = []"
| "headerHack (kv # hdr) =
     (if fst kv = ''RequestServerVersion'' then
        (case snd kv of
           JObject v \<Rightarrow> (fst kv, versionLoop v (snd kv))
         | _ \<Rightarrow> kv)
      else kv) # headerHack hdr"

definition customHeader :: members where
  "customHeader =
     Set (Set [] ''__type'' (JString ''JsonRequestHeaders:#Exchange''))
       ''RequestServerVersion'' (JString ''Exchange2013'')"

text \<open>The variables of \<^verbatim>\<open>SOAP2JSON\<close> that its loop changes.\<close>

record soap_state =
  header :: "members option"
  body :: "members option"
  msgType :: string
  op :: "OpDescriptor option"
  gotHeader :: bool
  gotBody :: bool

lemma getNextElement_shorter:
  "getNextElement x w = Inr (t, x') \<Longrightarrow> length x' < length x"
  by (induction x w rule: getNextElement.induct) (auto split: if_splits)

lemma getNextStartElement_shorter:
  "getNextStartElement x = Inr (el, x') \<Longrightarrow> length x' < length x"
  by (auto simp: getNextStartElement_def split: sum.splits Token.splits
        dest: getNextElement_shorter)

lemma processSoapElement_shorter:
  "processSoapElement reg d el typ jt = Inr (r, d') \<Longrightarrow> length d' < length d"
  by (auto simp: processSoapElement_def
        split: sum.splits if_splits json.splits list.splits dest: processElement_shorter)

text \<open>The loop \<^verbatim>\<open>for !gotHeader || !gotBody\<close>.\<close>

function soapLoop ::
  "registry \<Rightarrow> Token list \<Rightarrow> soap_state \<Rightarrow> error + (soap_state \<times> Token list)" where
  "soapLoop reg d st =
     (if \<not> gotHeader st \<or> \<not> gotBody st then
        (case getNextStartElement d of
           Inl e \<Rightarrow> Inl e
         | Inr (el, d1) \<Rightarrow>
             if Local (el_Name el) = ''Header'' then
               if gotHeader st then Inl MultipleHeaders
               else
                 (case processSoapElement reg d1 el (Some (EwsSoapRequestHeader reg))
                         (JsonType (EwsSoapRequestHeader reg)) of
                    Inl e \<Rightarrow> Inl e
                  | Inr (hdr, d2) \<Rightarrow>
                      soapLoop reg d2
                        (st\<lparr>header := (case hdr of
                                         Some h \<Rightarrow> Some (headerHack h)
                                       | None \<Rightarrow> Some customHeader),
                            gotHeader := True\<rparr>))
             else if Local (el_Name el) = ''Body'' then
               if gotBody st then Inl MultipleBodies
               else
                 (case getNextStartElement d1 of
                    Inl e \<Rightarrow> Inl e
                  | Inr (el2, d2) \<Rightarrow>
                      (case EwsOperations reg (Local (el_Name el2)) of
                         None \<Rightarrow> Inl (UnknownOperation (Local (el_Name el2)))
                       | Some op' \<Rightarrow>
                           (case processSoapElement reg d2 el2 (ewsTypes reg (Request op'))
                                   (BodyType op') of
                              Inl e \<Rightarrow> Inl e
                            | Inr (bdy, d3) \<Rightarrow>
                                (case getNextElement d3 False of
                                   Inl e \<Rightarrow> Inl e
                                 | Inr (endel, d4) \<Rightarrow>
                                     soapLoop reg d4
                                       (st\<lparr>op := Some op', msgType := RequestType op',
                                           body := bdy, gotBody := True\<rparr>)))))
             else soapLoop reg d1 st)
      else Inr (st, d))"
  by pat_completeness auto
termination
proof (relation "measure (\<lambda>(reg, d, st). length d)")
qed (auto dest!: getNextStartElement_shorter processSoapElement_shorter getNextElement_shorter)

declare soapLoop.simps [simp del]

text \<open>
  \<^verbatim>\<open>json.Marshal\<close> of \<^verbatim>\<open>github.com/virtuald/go-ordered-json\<close>, a copy of
  \<^verbatim>\<open>encoding/json\<close> with ordered objects, which is not part of the sources. Of the
  values that \<^verbatim>\<open>SOAP2JSON\<close> builds, the encoder refuses only a \<^verbatim>\<open>json.Number\<close> whose
  text is not a number literal of JSON: \<open>isValidNumber\<close> is its scanner for the grammar of
  JSON numbers (a sign \<^verbatim>\<open>-\<close>, the digits of the integer, a fraction, an exponent), and
  \<open>encodeNumber\<close> is the text it writes for a \<^verbatim>\<open>json.Number\<close>, the empty one being
  written as \<^verbatim>\<open>0\<close>. \<open>Marshal\<close> goes through a value in the order of the document and
  returns the texts written for its numbers, or the error of the first number that is
  refused; the other bytes of the output are not modelled.
\<close>

definition isDigit :: "char \<Rightarrow> bool" where
  "isDigit c \<longleftrightarrow> c \<in> set ''0123456789''"

definition skipDigits :: "string \<Rightarrow> string" where
  "skipDigits s = dropWhile isDigit s"

definition skipInteger :: "string \<Rightarrow> string option" where
  "skipInteger s =
     (case s of
        [] \<Rightarrow> None
      | c # r \<Rightarrow>
          if c = CHR ''0'' then Some r
          else if isDigit c then Some (skipDigits r)
          else None)"

definition skipFraction :: "string \<Rightarrow> string" where
  "skipFraction s =
     (case s of
        c # c' # r \<Rightarrow> if c = CHR ''.'' \<and> isDigit c' then skipDigits r else s
      | _ \<Rightarrow> s)"

definition skipExponent :: "string \<Rightarrow> string option" where
  "skipExponent s =
     (case s of
        c # c' # r \<Rightarrow>
          if c = CHR ''e'' \<or> c = CHR ''E'' then
            (if c' = CHR ''+'' \<or> c' = CHR ''-'' then
               (if r = [] then None else Some (skipDigits r))
             else Some (skipDigits (c' # r)))
          else Some s
      | _ \<Rightarrow> Some s)"

definition isValidNumber :: "string \<Rightarrow> bool" where
  "isValidNumber s =
     (if s = [] then False
      else
        (let s1 = (if hd s = CHR ''-'' then tl s else s) in
         if s1 = [] then False
         else
           (case skipInteger s1 of
              None \<Rightarrow> False
            | Some s2 \<Rightarrow>
                (case skipExponent (skipFraction s2) of
                   None \<Rightarrow> False
                 | Some s4 \<Rightarrow> s4 = []))))"

definition encodeNumber :: "string \<Rightarrow> error + string" where
  "encodeNumber numStr =
     (let numStr' = (if numStr = '''' then ''0'' else numStr) in
      if \<not> isValidNumber numStr' then Inl (InvalidNumberLiteral numStr')
      else Inr numStr')"

fun Marshal :: "json \<Rightarrow> error + string list"
and marshalList :: "json list \<Rightarrow> error + string list"
and marshalMembers :: "members \<Rightarrow> error + string list"
where
  "Marshal (JNumber numStr) =
     (case encodeNumber numStr of Inl e \<Rightarrow> Inl e | Inr text \<Rightarrow> Inr [text])"
| "Marshal (JArray vs) = marshalList vs"
| "Marshal (JsonList vs) = marshalList vs"
| "Marshal (JObject ms) = marshalMembers ms"
| "Marshal JNull = Inr []"
| "Marshal (JBool b) = Inr []"
| "Marshal (JInt i) = Inr []"
| "Marshal (JString s) = Inr []"
| "marshalList [] = Inr []"
| "marshalList (v # vs) =
     (case Marshal v of
        Inl e \<Rightarrow> Inl e
      | Inr texts \<Rightarrow>
          (case marshalList vs of Inl e \<Rightarrow> Inl e | Inr texts' \<Rightarrow> Inr (texts @ texts')))"
| "marshalMembers [] = Inr []"
| "marshalMembers (m # ms) =
     (case Marshal (snd m) of
        Inl e \<Rightarrow> Inl e
      | Inr texts \<Rightarrow>
          (case marshalMembers ms of Inl e \<Rightarrow> Inl e | Inr texts' \<Rightarrow> Inr (texts @ texts')))"

text \<open>
  \<^verbatim>\<open>SOAP2JSON\<close>. \<open>msgObject\<close> is the ordered object \<^verbatim>\<open>msg\<close> that is given to
  \<^verbatim>\<open>json.Marshal\<close> (a nil \<^verbatim>\<open>json.OrderedObject\<close> has no members). The result is the
  message that has been written, as its three members, and the operation.
\<close>

record JsonMessage =
  m_type :: string
  m_Header :: "members option"
  m_Body :: "members option"

definition msgObject :: "JsonMessage \<Rightarrow> json" where
  "msgObject m =
     JObject [(''__type'', JString (m_type m)),
              (''Header'', JObject (case m_Header m of None \<Rightarrow> [] | Some h \<Rightarrow> h)),
              (''Body'', JObject (case m_Body m of None \<Rightarrow> [] | Some b \<Rightarrow> b))]"

definition SOAP2JSON :: "registry \<Rightarrow> Token list \<Rightarrow> error + (JsonMessage \<times> OpDescriptor option)" where
  "SOAP2JSON reg d =
     (case getNextStartElement d of
        Inl e \<Rightarrow> Inl e
      | Inr (el, d1) \<Rightarrow>
          if Local (el_Name el) \<noteq> ''Envelope'' then Inl NotASoapDocument
          else
            (case soapLoop reg d1
                    \<lparr>header = None, body = None, msgType = '''', op = None,
                     gotHeader = False, gotBody = False\<rparr> of
               Inl e \<Rightarrow> Inl e
             | Inr (st, d2) \<Rightarrow>
                 (case getNextElement d2 False of
                    Inl e \<Rightarrow> Inl e
                  | Inr (endel, d3) \<Rightarrow>
                      (case Marshal (msgObject \<lparr>m_type = msgType st, m_Header = header st,
                                               m_Body = body st\<rparr>) of
                         Inl e \<Rightarrow> Inl e
                       | Inr texts \<Rightarrow>
                           Inr (\<lparr>m_type = msgType st, m_Header = header st, m_Body = body st\<rparr>,
                                op st)))))"

subsection \<open>The XML encoder\<close>

text \<open>
  \<^verbatim>\<open>xml.Encoder\<close> of \<^verbatim>\<open>encoding/xml\<close>: the tokens written so far and the stack of open
  tags (the innermost first). \<^verbatim>\<open>EncodeToken\<close> refuses a tag without a name and an end
  tag that does not close the innermost open tag; the writer itself is taken not to fail.
  The tags of the registry have a local name only.
\<close>

record Encoder =
  enc_out :: "Token list"
  enc_tags :: "string list"

fun EncodeToken :: "Encoder \<Rightarrow> Token \<Rightarrow> error + Encoder" where
  "EncodeToken enc (TStart el) =
     (if Local (el_Name el) = '''' then Inl StartTagNoName
      else Inr (enc\<lparr>enc_out := enc_out enc @ [TStart el],
                    enc_tags := Local (el_Name el) # enc_tags enc\<rparr>))"
| "EncodeToken enc (TEnd n) =
     (if Local n = '''' then Inl EndTagNoName
      else
        (case enc_tags enc of
           [] \<Rightarrow> Inl (EndTagWithoutStart (Local n))
         | inner # tags \<Rightarrow>
             if inner = '''' then Inl (EndTagWithoutStart (Local n))
             else if inner \<noteq> Local n then Inl (EndTagMismatch (Local n) inner)
             else Inr (enc\<lparr>enc_out := enc_out enc @ [TEnd n], enc_tags := tags\<rparr>)))"
| "EncodeToken enc tok = Inr (enc\<lparr>enc_out := enc_out enc @ [tok]\<rparr>)"

definition EmitStart :: "EwsJsonType \<Rightarrow> Encoder \<Rightarrow> Attr list \<Rightarrow> error + Encoder" where
  "EmitStart this enc attrs =
     EncodeToken enc (TStart (StartElement (XmlName '''' (jt_XmlTag this)) attrs))"

definition EmitEnd :: "EwsJsonType \<Rightarrow> Encoder \<Rightarrow> error + Encoder" where
  "EmitEnd this enc = EncodeToken enc (TEnd (XmlName '''' (jt_XmlTag this)))"

subsection \<open>JSON to XML (\<^verbatim>\<open>json2soap.go\<close>)\<close>

text \<open>
  A decoded object is a \<^verbatim>\<open>map[string]interface{}\<close>: the members are read with
  \<open>map_of\<close>, \<open>delete\<close> removes a key and \<open>assign\<close> is \<^verbatim>\<open>m[k] = v\<close>.
\<close>

definition delete :: "string \<Rightarrow> members \<Rightarrow> members" where
  "delete k element = filter (\<lambda>kv. fst kv \<noteq> k) element"

fun assign :: "members \<Rightarrow> string \<Rightarrow> json \<Rightarrow> members" where
  "assign [] k v = [(k, v)]"
| "assign (m # ms) k v = (if fst m = k then (k, v) # ms else m # assign ms k v)"

text \<open>
  \<^verbatim>\<open>strconv.Atoi\<close> on a 64-bit platform: an optional sign and decimal digits, within the
  range of \<^verbatim>\<open>int\<close>; \<open>None\<close> is its error.
\<close>

fun digitsValue :: "string \<Rightarrow> int \<Rightarrow> int" where
  "digitsValue [] n = n"
| "digitsValue (c # cs) n = digitsValue cs (n * 10 + (of_char c - 48))"

definition Atoi :: "string \<Rightarrow> int option" where
  "Atoi s =
     (let neg = (s \<noteq> [] \<and> hd s = CHR ''-'');
          ds = (if s \<noteq> [] \<and> (hd s = CHR ''-'' \<or> hd s = CHR ''+'') then tl s else s);
          n = (if neg then - digitsValue ds 0 else digitsValue ds 0)
      in if ds = [] \<or> \<not> list_all isDigit ds then None
         else if - (2 ^ 63) \<le> n \<and> n < 2 ^ 63 then Some n
         else None)"

text \<open>
  The bit field of \<^verbatim>\<open>github.com/emef/bitfield\<close>, which is not part of the sources:
  \<^verbatim>\<open>NewFromUint32\<close> holds the four bytes of the number, and \<^verbatim>\<open>Test(i)\<close> reads bit
  \<open>i\<close> of it; beyond the four bytes the read is out of range. \<open>testBits\<close> is the
  \<^verbatim>\<open>range\<close> loop over the labels, from index \<open>index\<close> on.
\<close>

definition Test :: "32 word \<Rightarrow> nat \<Rightarrow> error + bool" where
  "Test bits i = (if i < 32 then Inr (bit bits i) else Inl (Panic IndexOutOfRange))"

fun testBits :: "32 word \<Rightarrow> string list \<Rightarrow> nat \<Rightarrow> error + string list" where
  "testBits bits [] index = Inr []"
| "testBits bits (v # vs) index =
     (case Test bits index of
        Inl e \<Rightarrow> Inl e
      | Inr b \<Rightarrow>
          (case testBits bits vs (Suc index) of
             Inl e \<Rightarrow> Inl e
           | Inr names \<Rightarrow> Inr (if b then v # names else names)))"

text \<open>\<^verbatim>\<open>strings.Join\<close>.\<close>

fun Join :: "string list \<Rightarrow> string \<Rightarrow> string" where
  "Join [] sep = ''''"
| "Join [a] sep = a"
| "Join (a # b # cs) sep = a @ sep @ Join (b # cs) sep"

definition processJsonChardata :: "Encoder \<Rightarrow> json \<Rightarrow> error + Encoder" where
  "processJsonChardata enc el =
     (case toString el of
        Inl e \<Rightarrow> Inl e
      | Inr text \<Rightarrow> EncodeToken enc (TCharData text))"

text \<open>\<^verbatim>\<open>IsCharData\<close>; the type of \<^verbatim>\<open>SingleType\<close> is read only when \<^verbatim>\<open>Types\<close> is nil.\<close>

definition IsCharData :: "registry \<Rightarrow> EwsJsonElement \<Rightarrow> error + bool" where
  "IsCharData reg e =
     (if je_Types e \<noteq> None then Inr False
      else
        (case je_SingleType e of
           None \<Rightarrow> Inr True
         | Some st \<Rightarrow>
             (case ewsTypes reg (jt_Type st) of
                None \<Rightarrow> Inl (Panic NilPointer)
              | Some t \<Rightarrow> Inr (IsSimple t \<and> TextAttr t = ''''))))"

text \<open>The default case of \<^verbatim>\<open>processJson\<close>: a JSON leaf.\<close>

definition processSimple :: "registry \<Rightarrow> Encoder \<Rightarrow> json \<Rightarrow> EwsJsonElement \<Rightarrow> error + Encoder" where
  "processSimple reg enc el edesc =
     (case IsCharData reg edesc of
        Inl e \<Rightarrow> Inl e
      | Inr c \<Rightarrow>
          if \<not> c then Inl (UnexpectedSimpleContent (je_JsonName edesc) el)
          else
            (case je_SingleType edesc of
               None \<Rightarrow> Inl (Panic NilPointer)
             | Some st \<Rightarrow>
                 (case EmitStart st enc [] of
                    Inl e \<Rightarrow> Inl (Wrap (je_JsonName edesc) e)
                  | Inr enc1 \<Rightarrow>
                      (case toString el of
                         Inl e \<Rightarrow> Inl (Wrap (je_JsonName edesc) e)
                       | Inr text \<Rightarrow>
                           (case ewsTypes reg (jt_Type st) of
                              None \<Rightarrow> Inl (Panic NilPointer)
                            | Some ewsType \<Rightarrow>
                                (case (if IsSimple ewsType \<and> SimpleType ewsType = T_ENUM then
                                         (case Atoi text of
                                            None \<Rightarrow>
                                              Inl (Wrap (''Unable to convert '' @ text
                                                           @ '' to an integer'') (AtoiError text))
                                          | Some num \<Rightarrow>
                                              if 0 \<le> num \<and> num < int (length (EnumValues ewsType))
                                              then Inr (EnumValues ewsType ! nat num)
                                              else Inl (Panic IndexOutOfRange))
                                       else Inr text) of
                                   Inl e \<Rightarrow> Inl e
                                 | Inr text' \<Rightarrow>
                                     (case processJsonChardata enc1 (JString text') of
                                        Inl e \<Rightarrow> Inl (Wrap (je_JsonName edesc) e)
                                      | Inr enc2 \<Rightarrow>
                                          (case EmitEnd st enc2 of
                                             Inl e \<Rightarrow> Inl (Wrap (je_JsonName edesc) e)
                                           | Inr enc3 \<Rightarrow> Inr enc3))))))))"

text \<open>The choice of the type at the head of \<^verbatim>\<open>processJsonObject\<close>.\<close>

fun applyXmlChoiceHook ::
  "XmlChoiceFunc \<Rightarrow> EwsJsonElement \<Rightarrow> members \<Rightarrow> error + EwsJsonType" where
  "applyXmlChoiceHook SyncFolderHierarchyChangesHook edesc element =
     (case map_of element ''ChangeType'' of
        Some (JString changeType) \<Rightarrow>
          (case map_of (je_Elements edesc) (''t:'' @ changeType) of
             Some t \<Rightarrow> Inr t
           | None \<Rightarrow> Inl InvalidChangeType)
      | _ \<Rightarrow> Inl InvalidChangeType)"

definition resolveType :: "EwsJsonElement \<Rightarrow> members \<Rightarrow> error + EwsJsonType" where
  "resolveType edesc element =
     (case je_SingleType edesc of
        Some jtyp \<Rightarrow> Inr jtyp
      | None \<Rightarrow>
          (case je_XmlChoiceHook edesc of
             Some hook \<Rightarrow> applyXmlChoiceHook hook edesc element
           | None \<Rightarrow>
               (case map_of element ''__type'' of
                  Some (JString hint) \<Rightarrow>
                    (case je_Types edesc of
                       None \<Rightarrow> Inl (HintNotFound hint (je_JsonName edesc))
                     | Some ts \<Rightarrow>
                         (case map_of ts hint of
                            None \<Rightarrow> Inl (HintNotFound hint (je_JsonName edesc))
                          | Some jtyp \<Rightarrow> Inr jtyp))
                | _ \<Rightarrow> Inl (NoHint element))))"

text \<open>The loop over \<^verbatim>\<open>typ.Attributes\<close>.\<close>

fun attrLoop :: "element list \<Rightarrow> members \<Rightarrow> Attr list \<Rightarrow> error + (Attr list \<times> members)" where
  "attrLoop [] element attrs = Inr (attrs, element)"
| "attrLoop (attr # rest) element attrs =
     (case map_of element (JN attr) of
        Some oo \<Rightarrow>
          (case toString oo of
             Inl e \<Rightarrow> Inl (Wrap (''invalid attribute '' @ JN attr) e)
           | Inr attrStr \<Rightarrow>
               attrLoop rest (delete (JN attr) element)
                 (attrs @ [Attr (XmlName '''' (XN attr)) attrStr]))
      | None \<Rightarrow> attrLoop rest element attrs)"

text \<open>A simple type with a text attribute: its character data.\<close>

definition textBody :: "EwsType \<Rightarrow> Encoder \<Rightarrow> members \<Rightarrow> error + (Encoder \<times> members)" where
  "textBody typ enc element =
     (case map_of element (TextAttr typ) of
        Some oo \<Rightarrow>
          (case processJsonChardata enc oo of
             Inl e \<Rightarrow> Inl (Wrap (TextAttr typ) e)
           | Inr enc1 \<Rightarrow> Inr (enc1, delete (TextAttr typ) element))
      | None \<Rightarrow> Inr (enc, element))"

text \<open>
  The test for a simple list of an enum in the loop over the children: the type of the
  element and the type of the items when it holds.
\<close>

definition enumListType ::
  "registry \<Rightarrow> EwsJsonElement \<Rightarrow> error + (EwsJsonType \<times> EwsType) option" where
  "enumListType reg je =
     (case je_SingleType je of
        None \<Rightarrow> Inr None
      | Some st \<Rightarrow>
          (case ewsTypes reg (jt_Type st) of
             None \<Rightarrow> Inl (Panic NilPointer)
           | Some jeTyp \<Rightarrow>
               if IsSimple jeTyp \<and> SimpleType jeTyp = T_LIST then
                 (case ListItemType jeTyp of
                    None \<Rightarrow> Inr None
                  | Some itn \<Rightarrow>
                      (case ewsTypes reg itn of
                         None \<Rightarrow> Inr None
                       | Some it \<Rightarrow>
                           if IsSimple it \<and> SimpleType it = T_ENUM then Inr (Some (st, it))
                           else Inr None))
               else Inr None))"

text \<open>The body of that branch: the labels selected by the bits of the number.\<close>

definition emitEnumList ::
  "Encoder \<Rightarrow> json \<Rightarrow> EwsJsonType \<Rightarrow> EwsType \<Rightarrow> string \<Rightarrow> error + Encoder" where
  "emitEnumList enc ob st it jsonName =
     (case toString ob of
        Inl e \<Rightarrow> Inl (Wrap ''Unable to convert list value to string'' e)
      | Inr numStr \<Rightarrow>
          (case Atoi numStr of
             None \<Rightarrow> Inl (Wrap (''Unable to convert '' @ numStr @ '' to integer'') (AtoiError numStr))
           | Some num \<Rightarrow>
               (case testBits (word_of_int num) (EnumValues it) 0 of
                  Inl e \<Rightarrow> Inl e
                | Inr names \<Rightarrow>
                    (case EmitStart st enc [] of
                       Inl e \<Rightarrow> Inl (Wrap jsonName e)
                     | Inr enc1 \<Rightarrow>
                         (case EmitEnd st
                                 (case EncodeToken enc1 (TCharData (Join names '' '')) of
                                    Inl e \<Rightarrow> enc1
                                  | Inr enc2 \<Rightarrow> enc2) of
                            Inl e \<Rightarrow> Inl (Wrap jsonName e)
                          | Inr enc3 \<Rightarrow> Inr enc3)))))"

text \<open>The end of \<^verbatim>\<open>processJsonObject\<close>: the extras, the strictness check, the end tag.\<close>

definition finishObject ::
  "EwsType \<Rightarrow> EwsJsonType \<Rightarrow> Encoder \<Rightarrow> members \<Rightarrow> error + Encoder" where
  "finishObject typ jtyp enc element =
     (if length (fold delete (JsonExtra typ) element) \<noteq> 0
      then Inl (ExtraElements (Name typ) (fold delete (JsonExtra typ) element))
      else EmitEnd jtyp enc)"

text \<open>
  The head of \<^verbatim>\<open>processJsonList\<close>: the description of the items and the tag around
  them, if any.
\<close>

definition listDescs ::
  "registry \<Rightarrow> EwsJsonElement \<Rightarrow> error + (EwsJsonElement \<times> EwsJsonType option)" where
  "listDescs reg edesc =
     (case je_SingleType edesc of
        None \<Rightarrow> if je_IsList edesc then Inr (edesc, None) else Inl CouldNotDetermineListType
      | Some st \<Rightarrow>
          (case ewsTypes reg (jt_Type st) of
             None \<Rightarrow> Inl (Panic NilPointer)
           | Some t \<Rightarrow>
               if JsonListName t \<noteq> '''' \<or> IsList t then
                 (case JsonListElement t of
                    None \<Rightarrow> Inl (Panic NilPointer)
                  | Some jl \<Rightarrow>
                      Inr (emptyJsonElement\<lparr>je_JsonName := je_JsonName edesc,
                             je_SingleType := je_SingleType jl, je_Types := je_Types jl\<rparr>,
                           Some st))
               else if je_IsList edesc then Inr (edesc, None)
               else Inl CouldNotDetermineListType))"

lemma size_member: "(k, v) \<in> set m \<Longrightarrow> size v < size (JObject m)"
  by (induction m) auto

lemma size_map_of: "map_of m k = Some v \<Longrightarrow> size v < size (JObject m)"
  by (rule size_member) (erule map_of_SomeD)

lemma size_delete: "size (JObject (delete k m)) \<le> size (JObject m)"
  by (induction m) (auto simp: delete_def)

lemma attrLoop_size:
  "attrLoop as element attrs = Inr (attrs', element') \<Longrightarrow>
     size (JObject element') \<le> size (JObject element)"
proof (induction as arbitrary: element attrs)
  case Nil
  then show ?case by simp
next
  case (Cons a as)
  show ?case
  proof (cases "map_of element (JN a)")
    case None
    with Cons show ?thesis by simp
  next
    case (Some oo)
    with Cons.prems obtain attrStr where
      "attrLoop as (delete (JN a) element) (attrs @ [Attr (XmlName '''' (XN a)) attrStr])
         = Inr (attrs', element')"
      by (auto split: sum.splits)
    from Cons.IH [OF this] size_delete [of "JN a" element] show ?thesis by simp
  qed
qed

text \<open>
  \<^verbatim>\<open>processJson\<close>, \<^verbatim>\<open>processJsonObject\<close> with its loop over the declared children,
  and \<^verbatim>\<open>processJsonList\<close> with its loop over the items. The loop over the children
  returns the encoder and what is left of the object.
\<close>

function
  processJson :: "registry \<Rightarrow> Encoder \<Rightarrow> json \<Rightarrow> EwsJsonElement \<Rightarrow> error + Encoder"
and processJsonObject ::
    "registry \<Rightarrow> Encoder \<Rightarrow> members \<Rightarrow> EwsJsonElement \<Rightarrow> error + Encoder"
and childrenLoop ::
    "registry \<Rightarrow> Encoder \<Rightarrow> members \<Rightarrow> EwsJsonElement list \<Rightarrow> error + (Encoder \<times> members)"
and processJsonList ::
    "registry \<Rightarrow> Encoder \<Rightarrow> json list \<Rightarrow> EwsJsonElement \<Rightarrow> error + Encoder"
and listLoop :: "registry \<Rightarrow> Encoder \<Rightarrow> json list \<Rightarrow> EwsJsonElement \<Rightarrow> error + Encoder"
where
  "processJson reg enc element edesc =
     (case element of
        JObject el \<Rightarrow>
          (case processJsonObject reg enc el edesc of
             Inl e \<Rightarrow> Inl (Wrap (je_JsonName edesc) e)
           | Inr enc1 \<Rightarrow> Inr enc1)
      | JArray el \<Rightarrow>
          (case processJsonList reg enc el edesc of
             Inl e \<Rightarrow> Inl (Wrap (je_JsonName edesc) e)
           | Inr enc1 \<Rightarrow> Inr enc1)
      | JNull \<Rightarrow> Inr enc
      | _ \<Rightarrow> processSimple reg enc element edesc)"
| "processJsonObject reg enc element edesc =
     (case resolveType edesc element of
        Inl e \<Rightarrow> Inl e
      | Inr jtyp \<Rightarrow>
          (case ewsTypes reg (jt_Type jtyp) of
             None \<Rightarrow> Inl (Panic NilPointer)
           | Some typ \<Rightarrow>
               if IsSimple typ \<and> TextAttr typ = '''' then Inl (IsASimpleType (Name typ))
               else
                 (case attrLoop (Attributes typ) (delete ''__type'' element) [] of
                    Inl e \<Rightarrow> Inl e
                  | Inr (attrs, element1) \<Rightarrow>
                      (case EmitStart jtyp enc attrs of
                         Inl e \<Rightarrow> Inl e
                       | Inr enc1 \<Rightarrow>
                           (case (if IsSimple typ \<and> TextAttr typ \<noteq> '''' then
                                    textBody typ enc1 element1
                                  else if JsonListName typ \<noteq> '''' then
                                    (case map_of element1 (JsonListName typ) of
                                       None \<Rightarrow> Inl (NoListElement (JsonListName typ))
                                     | Some v \<Rightarrow>
                                         if v = JNull then Inl (NoListElement (JsonListName typ))
                                         else
                                           (case JsonListElement typ of
                                              None \<Rightarrow> Inl (Panic NilPointer)
                                            | Some jle \<Rightarrow>
                                                (case processJson reg enc1 v jle of
                                                   Inl e \<Rightarrow> Inl e
                                                 | Inr enc2 \<Rightarrow>
                                                     Inr (enc2, delete (JsonListName typ) element1))))
                                  else childrenLoop reg enc1 element1 (JsonElementList typ)) of
                              Inl e \<Rightarrow> Inl e
                            | Inr (enc2, element2) \<Rightarrow> finishObject typ jtyp enc2 element2)))))"
| "childrenLoop reg enc element [] = Inr (enc, element)"
| "childrenLoop reg enc element (je # jes) =
     (case map_of element (je_JsonName je) of
        None \<Rightarrow> childrenLoop reg enc element jes
      | Some ob \<Rightarrow>
          (case enumListType reg je of
             Inl e \<Rightarrow> Inl e
           | Inr (Some (st, it)) \<Rightarrow>
               (case emitEnumList enc ob st it (je_JsonName je) of
                  Inl e \<Rightarrow> Inl e
                | Inr enc1 \<Rightarrow> childrenLoop reg enc1 (delete (je_JsonName je) element) jes)
           | Inr None \<Rightarrow>
               (case processJson reg enc ob je of
                  Inl e \<Rightarrow> Inl e
                | Inr enc1 \<Rightarrow> childrenLoop reg enc1 (delete (je_JsonName je) element) jes)))"
| "processJsonList reg enc elements edesc =
     (case listDescs reg edesc of
        Inl e \<Rightarrow> Inl e
      | Inr (childDesc, jtyp) \<Rightarrow>
          (case (case jtyp of Some jt \<Rightarrow> EmitStart jt enc [] | None \<Rightarrow> Inr enc) of
             Inl e \<Rightarrow> Inl e
           | Inr enc1 \<Rightarrow>
               (case listLoop reg enc1 elements childDesc of
                  Inl e \<Rightarrow> Inl e
                | Inr enc2 \<Rightarrow>
                    (case jtyp of Some jt \<Rightarrow> EmitEnd jt enc2 | None \<Rightarrow> Inr enc2))))"
| "listLoop reg enc [] childDesc = Inr enc"
| "listLoop reg enc (e # es) childDesc =
     (if e = JNull then listLoop reg enc es childDesc
      else
        (case IsCharData reg childDesc of
           Inl p \<Rightarrow> Inl p
         | Inr c \<Rightarrow>
             if c then
               (case je_SingleType childDesc of
                  None \<Rightarrow> Inl (Panic NilPointer)
                | Some st \<Rightarrow>
                    (case EmitStart st enc [] of
                       Inl x \<Rightarrow> Inl x
                     | Inr enc1 \<Rightarrow>
                         (case processJsonChardata enc1 e of
                            Inl x \<Rightarrow> Inl (Wrap ''processing list'' x)
                          | Inr enc2 \<Rightarrow>
                              (case EmitEnd st enc2 of
                                 Inl x \<Rightarrow> Inl x
                               | Inr enc3 \<Rightarrow> listLoop reg enc3 es childDesc))))
             else
               (case e of
                  JObject ob \<Rightarrow>
                    (case processJsonObject reg enc ob childDesc of
                       Inl x \<Rightarrow> Inl x
                     | Inr enc1 \<Rightarrow> listLoop reg enc1 es childDesc)
                | _ \<Rightarrow> Inl (ExpectedObject e))))"
  by pat_completeness auto

lemma term_list_value:
  "attrLoop as (delete k0 element) [] = Inr ba \<Longrightarrow> (x, y) = ba \<Longrightarrow> map_of y k = Some v
     \<Longrightarrow> size v < Suc (size_list (size_prod (\<lambda>x. 0) size) element)"
  using attrLoop_size [of as "delete k0 element" "[]" x y] size_delete [of k0 element]
    size_map_of [of y k v]
  by auto

lemma term_children:
  "attrLoop as (delete k0 element) [] = Inr ba \<Longrightarrow> (x, y) = ba
     \<Longrightarrow> size_list (size_prod (\<lambda>x. 0) size) y < size_list (size_prod (\<lambda>x. 0) size) element
         \<or> size_list (size_prod (\<lambda>x. 0) size) y = size_list (size_prod (\<lambda>x. 0) size) element"
  using attrLoop_size [of as "delete k0 element" "[]" x y] size_delete [of k0 element]
  by auto

lemma term_child:
  "map_of (element :: members) k = Some v \<Longrightarrow> size v < Suc (size_list (size_prod (\<lambda>x. 0) size) element)"
  using size_map_of [of element k v] by simp

lemma term_delete:
  "size_list (size_prod (\<lambda>x. 0) size) (delete k element)
     < size_list (size_prod (\<lambda>x. 0) size) element
   \<or> size_list (size_prod (\<lambda>x. 0) size) (delete k element)
     = size_list (size_prod (\<lambda>x. 0) size) element"
  using size_delete [of k element] by auto

termination processJson
  apply (relation "measures
     [case_sum
        (case_sum (\<lambda>(reg, enc, element, edesc). size element)
                  (\<lambda>(reg, enc, element, edesc). size (JObject element)))
        (case_sum (\<lambda>(reg, enc, element, jes). size (JObject element))
           (case_sum (\<lambda>(reg, enc, elements, edesc). size (JArray elements))
                     (\<lambda>(reg, enc, elements, edesc). size (JArray elements)))),
      case_sum (case_sum (\<lambda>x. 3) (\<lambda>x. 2)) (case_sum (\<lambda>x. 1) (case_sum (\<lambda>x. 2) (\<lambda>x. 1))),
      case_sum (case_sum (\<lambda>x. 0) (\<lambda>x. 0))
         (case_sum (\<lambda>(reg, enc, element, jes). length jes) (case_sum (\<lambda>x. 0) (\<lambda>x. 0)))]")
       apply simp_all
      apply (erule (2) term_list_value)
     apply (erule (1) term_children)
    apply (erule term_child)
   apply (rule term_delete)
  apply (rule term_delete)
  done

declare processJson.simps [simp del] processJsonObject.simps [simp del]
  processJsonList.simps [simp del]

text \<open>
  The body of \<^verbatim>\<open>processJsonObject\<close> between the start tag and the strictness check, as
  the function above has it: the character data, the named list, or the declared children.
\<close>

definition objectBody ::
  "registry \<Rightarrow> Encoder \<Rightarrow> EwsType \<Rightarrow> members \<Rightarrow> error + (Encoder \<times> members)" where
  "objectBody reg enc1 typ element1 =
     (if IsSimple typ \<and> TextAttr typ \<noteq> '''' then textBody typ enc1 element1
      else if JsonListName typ \<noteq> '''' then
        (case map_of element1 (JsonListName typ) of
           None \<Rightarrow> Inl (NoListElement (JsonListName typ))
         | Some v \<Rightarrow>
             if v = JNull then Inl (NoListElement (JsonListName typ))
             else
               (case JsonListElement typ of
                  None \<Rightarrow> Inl (Panic NilPointer)
                | Some jle \<Rightarrow>
                    (case processJson reg enc1 v jle of
                       Inl e \<Rightarrow> Inl e
                     | Inr enc2 \<Rightarrow> Inr (enc2, delete (JsonListName typ) element1))))
      else childrenLoop reg enc1 element1 (JsonElementList typ))"

text \<open>
  The type hints of \<^verbatim>\<open>JSON2SOAP\<close>: the loop over the items of one child, the loop over
  the names of the children (\<open>t\<close> is \<^verbatim>\<open>op.Response.JsonName + "Message"\<close>; a child that
  is nil or no object is passed over), and the whole step on the body. The names are the
  keys of the map \<^verbatim>\<open>TypeByElementName\<close>, which Go ranges over in no fixed order:
  \<open>stampChildren\<close> takes the order as the list \<open>names\<close>, and \<open>stampBody\<close> visits the keys
  in the order of the association list.
\<close>

fun stampItems :: "string \<Rightarrow> json list \<Rightarrow> error + json list" where
  "stampItems t [] = Inr []"
| "stampItems t (gItem # items) =
     (case gItem of
        JObject item \<Rightarrow>
          (case stampItems t items of
             Inl e \<Rightarrow> Inl e
           | Inr items' \<Rightarrow> Inr (JObject (assign item ''__type'' (JString t)) # items'))
      | _ \<Rightarrow> Inl (ItemNotObject gItem))"

fun stampChildren :: "string \<Rightarrow> string list \<Rightarrow> members \<Rightarrow> error + members" where
  "stampChildren t [] bdy = Inr bdy"
| "stampChildren t (childName # names) bdy =
     (case map_of bdy childName of
        None \<Rightarrow> stampChildren t names bdy
      | Some childBody \<Rightarrow>
          (case childBody of
             JObject childMessage \<Rightarrow>
               (case map_of childMessage ''Items'' of
                  None \<Rightarrow> Inl (CannotFindItems childName)
                | Some itemsG \<Rightarrow>
                    (case itemsG of
                       JArray items \<Rightarrow>
                         (case stampItems t items of
                            Inl e \<Rightarrow> Inl e
                          | Inr items' \<Rightarrow>
                              stampChildren t names
                                (assign bdy childName
                                   (JObject (assign childMessage ''Items'' (JArray items')))))
                     | _ \<Rightarrow> Inl (CannotConvertItems childName)))
           | _ \<Rightarrow> stampChildren t names bdy))"

definition stampBody :: "registry \<Rightarrow> OpDescriptor \<Rightarrow> members \<Rightarrow> error + members" where
  "stampBody reg op' bdy =
     (case je_SingleType (Response op') of
        None \<Rightarrow> Inl (Panic NilPointer)
      | Some st \<Rightarrow>
          (case ewsTypes reg (jt_Type st) of
             None \<Rightarrow> Inl (Panic NilPointer)
           | Some ewsResponseType \<Rightarrow>
               stampChildren (je_JsonName (Response op') @ ''Message'')
                 (map fst (TypeByElementName ewsResponseType)) bdy))"

text \<open>
  \<^verbatim>\<open>JSON2SOAP\<close>, on the decoded \<^verbatim>\<open>JsonSoapMessage\<close>. The result is the list of the
  tokens given to the encoder, which follow the XML declaration in the output.
\<close>

record JsonSoapMessage =
  msg_Type :: string
  msg_Header :: "members option"
  msg_Body :: "members option"

definition soapEnvelopeTag :: xml_name where
  "soapEnvelopeTag = XmlName '''' ''soap:Envelope''"

definition soapBodyTag :: xml_name where
  "soapBodyTag = XmlName '''' ''soap:Body''"

definition soapXmlns :: "Attr list" where
  "soapXmlns =
     [Attr (XmlName '''' ''xmlns:soap'') ''http://schemas.xmlsoap.org/soap/envelope/'',
      Attr (XmlName '''' ''xmlns:m'')
        ''http://schemas.microsoft.com/exchange/services/2006/messages'',
      Attr (XmlName '''' ''xmlns:t'')
        ''http://schemas.microsoft.com/exchange/services/2006/types'']"

definition JSON2SOAP :: "registry \<Rightarrow> JsonSoapMessage \<Rightarrow> OpDescriptor \<Rightarrow> error + Token list" where
  "JSON2SOAP reg msg op' =
     (case EncodeToken \<lparr>enc_out = [], enc_tags = []\<rparr>
             (TStart (StartElement soapEnvelopeTag soapXmlns)) of
        Inl e \<Rightarrow> Inl e
      | Inr enc \<Rightarrow>
          (case (case msg_Header msg of
                   None \<Rightarrow> Inr enc
                 | Some hdr \<Rightarrow>
                     (case processJson reg enc (JObject hdr) (EwsSoapResponseHeader reg) of
                        Inl e \<Rightarrow> Inl (Wrap ''soap:Header'' e)
                      | Inr enc1 \<Rightarrow> Inr enc1)) of
             Inl e \<Rightarrow> Inl e
           | Inr enc1 \<Rightarrow>
               (case (case msg_Body msg of
                        None \<Rightarrow> Inr enc1
                      | Some bdy \<Rightarrow>
                          (case EncodeToken enc1 (TStart (StartElement soapBodyTag [])) of
                             Inl e \<Rightarrow> Inl e
                           | Inr enc2 \<Rightarrow>
                               (case stampBody reg op' bdy of
                                  Inl e \<Rightarrow> Inl e
                                | Inr bdy' \<Rightarrow>
                                    (case processJson reg enc2 (JObject bdy') (Response op') of
                                       Inl e \<Rightarrow> Inl (Wrap ''soap:Body'' e)
                                     | Inr enc3 \<Rightarrow> EncodeToken enc3 (TEnd soapBodyTag))))) of
                  Inl e \<Rightarrow> Inl e
                | Inr enc4 \<Rightarrow>
                    (case EncodeToken enc4 (TEnd soapEnvelopeTag) of
                       Inl e \<Rightarrow> Inl e
                     | Inr enc5 \<Rightarrow> Inr (enc_out enc5)))))"

subsection \<open>A small registry\<close>

text \<open>
  \<^verbatim>\<open>ews_data.go\<close> is not part of the sources. The registry below has the shape of its
  entries for \<^verbatim>\<open>GetFolder\<close>, with a number-kind child \<^verbatim>\<open>MaxEntries\<close> in the folder
  shape, and is the concrete input of the examples.
\<close>

definition exString :: EwsType where
  "exString = emptyType\<lparr>Name := ''xs:string'', IsSimple := True, SimpleType := T_STR\<rparr>"

definition exInt :: EwsType where
  "exInt = emptyType\<lparr>Name := ''xs:int'', IsSimple := True, SimpleType := T_NUM\<rparr>"

definition exVersion :: EwsType where
  "exVersion =
     emptyType\<lparr>Name := ''RequestServerVersion'',
       Attributes := [\<lparr>XN = ''Version'', JN = ''Version''\<rparr>],
       Attrs := [(''Version'', ''xs:string'')], AttrsNames := [(''Version'', ''Version'')]\<rparr>"

definition exRequestHeader :: EwsType where
  "exRequestHeader =
     emptyType\<lparr>Name := ''SoapRequestHeader'', JsonType := ''JsonRequestHeaders:#Exchange'',
       TypeByElementName :=
         [(''RequestServerVersion'',
           \<lparr>xe_JsonName = ''RequestServerVersion'', xe_Type = ''RequestServerVersion'',
            xe_IsList = False\<rparr>)]\<rparr>"

definition exFolderShape :: EwsType where
  "exFolderShape =
     emptyType\<lparr>Name := ''FolderResponseShapeType'', JsonType := ''FolderResponseShape:#Exchange'',
       TypeByElementName :=
         [(''BaseShape'',
           \<lparr>xe_JsonName = ''BaseShape'', xe_Type = ''xs:string'', xe_IsList = False\<rparr>),
          (''MaxEntries'',
           \<lparr>xe_JsonName = ''MaxEntries'', xe_Type = ''xs:int'', xe_IsList = False\<rparr>)]\<rparr>"

definition exGetFolder :: EwsType where
  "exGetFolder =
     emptyType\<lparr>Name := ''GetFolderType'', JsonType := ''GetFolderRequest:#Exchange'',
       TypeByElementName :=
         [(''FolderShape'',
           \<lparr>xe_JsonName = ''FolderShape'', xe_Type = ''FolderResponseShapeType'',
            xe_IsList = False\<rparr>)]\<rparr>"

text \<open>
  The response side: an enumeration and a simple list of it, an item type with an
  attribute, four children and one droppable key, and the response of the operation with
  its array of response messages and a child \<^verbatim>\<open>Diagnostics\<close> whose type declares no
  \<^verbatim>\<open>Items\<close>.
\<close>

definition exLabel :: EwsType where
  "exLabel =
     emptyType\<lparr>Name := ''LabelType'', IsSimple := True, SimpleType := T_ENUM,
       EnumValues := [''None'', ''A'', ''B'', ''C'']\<rparr>"

definition exLabelList :: EwsType where
  "exLabelList =
     emptyType\<lparr>Name := ''LabelListType'', IsSimple := True, SimpleType := T_LIST,
       ListItemType := Some ''LabelType''\<rparr>"

definition exSubjectElement :: EwsJsonElement where
  "exSubjectElement =
     emptyJsonElement\<lparr>je_JsonName := ''Subject'',
       je_SingleType := Some \<lparr>jt_Type = ''xs:string'', jt_XmlTag = ''t:Subject''\<rparr>\<rparr>"

definition exLabelsElement :: EwsJsonElement where
  "exLabelsElement =
     emptyJsonElement\<lparr>je_JsonName := ''Labels'',
       je_SingleType := Some \<lparr>jt_Type = ''LabelListType'', jt_XmlTag = ''t:Labels''\<rparr>\<rparr>"

definition exFlagElement :: EwsJsonElement where
  "exFlagElement =
     emptyJsonElement\<lparr>je_JsonName := ''Flag'',
       je_SingleType := Some \<lparr>jt_Type = ''LabelType'', jt_XmlTag = ''t:Flag''\<rparr>\<rparr>"

definition exSizeElement :: EwsJsonElement where
  "exSizeElement =
     emptyJsonElement\<lparr>je_JsonName := ''Size'',
       je_SingleType := Some \<lparr>jt_Type = ''xs:int'', jt_XmlTag = ''t:Size''\<rparr>\<rparr>"

definition exItem :: EwsType where
  "exItem =
     emptyType\<lparr>Name := ''ItemType'', JsonType := ''Item:#Exchange'',
       Attributes := [\<lparr>XN = ''Id'', JN = ''Id''\<rparr>],
       JsonElementList := [exSubjectElement, exLabelsElement, exFlagElement, exSizeElement],
       JsonExtra := [''Extra'']\<rparr>"

definition exItemElement :: EwsJsonElement where
  "exItemElement =
     emptyJsonElement\<lparr>je_JsonName := ''Item'',
       je_SingleType := Some \<lparr>jt_Type = ''ItemType'', jt_XmlTag = ''t:Item''\<rparr>\<rparr>"

definition exResponseMessage :: EwsType where
  "exResponseMessage =
     emptyType\<lparr>Name := ''FolderInfoResponseMessageType'',
       JsonElementList :=
         [emptyJsonElement\<lparr>je_JsonName := ''ResponseCode'',
            je_SingleType := Some \<lparr>jt_Type = ''xs:string'', jt_XmlTag = ''m:ResponseCode''\<rparr>\<rparr>,
          emptyJsonElement\<lparr>je_JsonName := ''TotalItems'',
            je_SingleType := Some \<lparr>jt_Type = ''xs:int'', jt_XmlTag = ''m:TotalItems''\<rparr>\<rparr>]\<rparr>"

definition exResponseMessages :: EwsType where
  "exResponseMessages =
     emptyType\<lparr>Name := ''ArrayOfResponseMessagesType'', JsonListName := ''Items'',
       JsonListElement :=
         Some (emptyJsonElement\<lparr>je_JsonName := ''Items'', je_IsList := True,
                 je_Types :=
                   Some [(''GetFolderResponseMessage'',
                          \<lparr>jt_Type = ''FolderInfoResponseMessageType'',
                           jt_XmlTag = ''m:GetFolderResponseMessage''\<rparr>)]\<rparr>)\<rparr>"

definition exDiagnostics :: EwsType where
  "exDiagnostics =
     emptyType\<lparr>Name := ''DiagnosticsType'',
       TypeByElementName :=
         [(''Text'', \<lparr>xe_JsonName = ''Text'', xe_Type = ''xs:string'', xe_IsList = False\<rparr>)],
       JsonElementList :=
         [emptyJsonElement\<lparr>je_JsonName := ''Text'',
            je_SingleType := Some \<lparr>jt_Type = ''xs:string'', jt_XmlTag = ''m:Text''\<rparr>\<rparr>]\<rparr>"

definition exResponse :: EwsType where
  "exResponse =
     emptyType\<lparr>Name := ''GetFolderResponseType'',
       TypeByElementName :=
         [(''ResponseMessages'',
           \<lparr>xe_JsonName = ''ResponseMessages'', xe_Type = ''ArrayOfResponseMessagesType'',
            xe_IsList = False\<rparr>),
          (''Diagnostics'',
           \<lparr>xe_JsonName = ''Diagnostics'', xe_Type = ''DiagnosticsType'', xe_IsList = False\<rparr>)],
       JsonElementList :=
         [emptyJsonElement\<lparr>je_JsonName := ''ResponseMessages'',
            je_SingleType :=
              Some \<lparr>jt_Type = ''ArrayOfResponseMessagesType'',
                    jt_XmlTag = ''m:ResponseMessages''\<rparr>\<rparr>,
          emptyJsonElement\<lparr>je_JsonName := ''Diagnostics'',
            je_SingleType :=
              Some \<lparr>jt_Type = ''DiagnosticsType'', jt_XmlTag = ''m:Diagnostics''\<rparr>\<rparr>]\<rparr>"

definition exOp :: OpDescriptor where
  "exOp =
     \<lparr>Action = ''GetFolder'', Request = ''GetFolderType'',
      Response =
        emptyJsonElement\<lparr>je_JsonName := ''GetFolderResponse'',
          je_SingleType :=
            Some \<lparr>jt_Type = ''GetFolderResponseType'', jt_XmlTag = ''m:GetFolderResponse''\<rparr>\<rparr>,
      BodyType = ''GetFolderRequest:#Exchange'',
      RequestType = ''GetFolderJsonRequest:#Exchange''\<rparr>"

definition exReg :: registry where
  "exReg =
     \<lparr>ewsTypes = map_of
        [(''xs:string'', exString), (''xs:int'', exInt),
         (''RequestServerVersion'', exVersion),
         (''FolderResponseShapeType'', exFolderShape), (''GetFolderType'', exGetFolder),
         (''LabelType'', exLabel), (''LabelListType'', exLabelList), (''ItemType'', exItem),
         (''FolderInfoResponseMessageType'', exResponseMessage),
         (''ArrayOfResponseMessagesType'', exResponseMessages),
         (''DiagnosticsType'', exDiagnostics), (''GetFolderResponseType'', exResponse)],
      EwsOperations = map_of [(''GetFolder'', exOp)],
      EwsSoapRequestHeader = exRequestHeader,
      EwsSoapResponseHeader = emptyJsonElement\<lparr>je_JsonName := ''Header''\<rparr>\<rparr>"

text \<open>Start and end tags without attributes, and the encoder at its start.\<close>

definition tag :: "string \<Rightarrow> Token" where
  "tag n = TStart (StartElement (XmlName '''' n) [])"

definition endTag :: "string \<Rightarrow> Token" where
  "endTag n = TEnd (XmlName '''' n)"

definition enc0 :: Encoder where
  "enc0 = \<lparr>enc_out = [], enc_tags = []\<rparr>"

subsection \<open>Predicates of the statements\<close>

text \<open>
  \<open>typeKeyReserved\<close>: the type uses the key \<^verbatim>\<open>__type\<close> for nothing but the
  discriminator: it is neither its list key, nor its text attribute, nor the JSON name of
  one of its attributes.
\<close>

definition typeKeyReserved :: "EwsType \<Rightarrow> bool" where
  "typeKeyReserved typ \<longleftrightarrow>
     JsonListName typ \<noteq> ''__type'' \<and> TextAttr typ \<noteq> ''__type''
     \<and> ''__type'' \<notin> snd ` set (AttrsNames typ)"

text \<open>
  \<open>firstIs c k v ob\<close>: the first member of \<open>ob\<close> has the key \<open>k\<close>, and when \<open>c\<close>
  holds its value is \<open>v\<close>. \<open>hinted\<close> and \<open>linv\<close> are the invariant of the loop of
  \<^verbatim>\<open>processElement\<close>: the object under construction starts with the discriminator, and
  \<^verbatim>\<open>ret\<close> holds no object of its own.
\<close>

definition firstIs :: "bool \<Rightarrow> string \<Rightarrow> json \<Rightarrow> members \<Rightarrow> bool" where
  "firstIs c k v ob \<longleftrightarrow> ob \<noteq> [] \<and> fst (hd ob) = k \<and> (c \<longrightarrow> snd (hd ob) = v)"

definition hinted :: "EwsType \<Rightarrow> members \<Rightarrow> bool" where
  "hinted typ ob \<longleftrightarrow>
     (JsonType typ \<noteq> '''' \<longrightarrow>
        firstIs (typeKeyReserved typ) ''__type'' (JString (JsonType typ)) ob)"

definition linv :: "EwsType \<Rightarrow> locals \<Rightarrow> bool" where
  "linv typ st \<longleftrightarrow>
     (\<forall>ob. obj st = Some ob \<longrightarrow> hinted typ ob) \<and> (\<forall>m. ret st \<noteq> RVal (JObject m))"

definition leafinv :: "locals \<Rightarrow> bool" where
  "leafinv st \<longleftrightarrow> obj st = None \<and> ret st \<noteq> RObj \<and> (\<forall>m. ret st \<noteq> RVal (JObject m))"

text \<open>
  \<open>headerElementIn reg d h\<close>: the input \<open>d\<close> holds a start tag \<^verbatim>\<open>Header\<close> whose element
  \<^verbatim>\<open>processSoapElement\<close> translates, with the request header type, to \<open>h\<close>.
\<close>

definition headerElementIn :: "registry \<Rightarrow> Token list \<Rightarrow> members option \<Rightarrow> bool" where
  "headerElementIn reg d h \<longleftrightarrow>
     (\<exists>el d1 d2. suffix (TStart el # d1) d \<and> Local (el_Name el) = ''Header''
        \<and> processSoapElement reg d1 el (Some (EwsSoapRequestHeader reg))
              (JsonType (EwsSoapRequestHeader reg)) = Inr (h, d2))"

text \<open>
  The structure of the token list, in the words of the specification: \<open>closeElement n d\<close>
  is what follows the end tag that closes the element around \<open>d\<close>, \<open>n\<close> elements being
  open inside it; \<open>childNames n d\<close> are the names of the elements directly under that
  element, and \<open>envelopeChildren d\<close> those directly under the first element of \<open>d\<close>.
\<close>

fun closeElement :: "nat \<Rightarrow> Token list \<Rightarrow> Token list option" where
  "closeElement n [] = None"
| "closeElement n (TStart el # d) = closeElement (Suc n) d"
| "closeElement n (TEnd nm # d) = (case n of 0 \<Rightarrow> Some d | Suc m \<Rightarrow> closeElement m d)"
| "closeElement n (tok # d) = closeElement n d"

fun childNames :: "nat \<Rightarrow> Token list \<Rightarrow> string list" where
  "childNames n [] = []"
| "childNames n (TStart el # d) =
     (if n = 0 then [Local (el_Name el)] else []) @ childNames (Suc n) d"
| "childNames n (TEnd nm # d) = (case n of 0 \<Rightarrow> [] | Suc m \<Rightarrow> childNames m d)"
| "childNames n (tok # d) = childNames n d"

definition envelopeChildren :: "Token list \<Rightarrow> string list" where
  "envelopeChildren d =
     (case getNextStartElement d of Inl e \<Rightarrow> [] | Inr (el, d1) \<Rightarrow> childNames 0 d1)"

text \<open>
  \<open>dupc st ns\<close>: among the children \<open>ns\<close> still to come there is one that the loop of
  \<^verbatim>\<open>SOAP2JSON\<close>, in the state \<open>st\<close>, has already seen, or one that comes twice.
\<close>

definition dupc :: "soap_state \<Rightarrow> string list \<Rightarrow> bool" where
  "dupc st ns \<longleftrightarrow>
     (gotHeader st \<and> ''Header'' \<in> set ns) \<or> (gotBody st \<and> ''Body'' \<in> set ns)
     \<or> \<not> distinct ns"

text \<open>
  In the words of the specification: the keys that the translation of an object of the
  type consumes (the discriminator, the declared attributes, the text attribute or the
  list key or the declared children, and the droppable extras), and the members of an
  object that it leaves.
\<close>

definition bodyKeys :: "EwsType \<Rightarrow> string set" where
  "bodyKeys typ =
     (if IsSimple typ \<and> TextAttr typ \<noteq> '''' then {TextAttr typ}
      else if JsonListName typ \<noteq> '''' then {JsonListName typ}
      else je_JsonName ` set (JsonElementList typ))"

definition consumedKeys :: "EwsType \<Rightarrow> string set" where
  "consumedKeys typ =
     {''__type''} \<union> JN ` set (Attributes typ) \<union> bodyKeys typ \<union> set (JsonExtra typ)"

definition unconsumed :: "EwsType \<Rightarrow> members \<Rightarrow> members" where
  "unconsumed typ element = filter (\<lambda>kv. fst kv \<notin> consumedKeys typ) element"

text \<open>
  The outcome of the type hints, in the words of the specification: an item with its
  stamp, and the value of a child of the body after the step (\<open>None\<close> when the step fails
  on it). \<open>declaresItems\<close>: the type declares something under the name \<^verbatim>\<open>Items\<close>.
\<close>

definition stampItem :: "string \<Rightarrow> json \<Rightarrow> json" where
  "stampItem t g =
     (case g of JObject item \<Rightarrow> JObject (assign item ''__type'' (JString t)) | _ \<Rightarrow> g)"

definition isObject :: "json \<Rightarrow> bool" where
  "isObject v = (case v of JObject m \<Rightarrow> True | _ \<Rightarrow> False)"

definition stampedChild :: "string \<Rightarrow> json \<Rightarrow> json option" where
  "stampedChild t v =
     (case v of
        JObject childMessage \<Rightarrow>
          (case map_of childMessage ''Items'' of
             Some (JArray items) \<Rightarrow>
               if list_all isObject items
               then Some (JObject (assign childMessage ''Items'' (JArray (map (stampItem t) items))))
               else None
           | _ \<Rightarrow> None)
      | _ \<Rightarrow> Some v)"

definition declaresItems :: "EwsType \<Rightarrow> bool" where
  "declaresItems typ \<longleftrightarrow>
     JsonListName typ = ''Items''
     \<or> ''Items'' \<in> fst ` set (TypeByElementName typ)
     \<or> ''Items'' \<in> xe_JsonName ` snd ` set (TypeByElementName typ)
     \<or> ''Items'' \<in> je_JsonName ` set (JsonElementList typ)
     \<or> ''Items'' \<in> JN ` set (Attributes typ)"

text \<open>
  The texts of the \<^verbatim>\<open>json.Number\<close>s of a value, in the order of the document, and the
  text that stands for one of them in the JSON output.
\<close>

fun numbers :: "json \<Rightarrow> string list"
and numbersList :: "json list \<Rightarrow> string list"
and numbersMembers :: "members \<Rightarrow> string list"
where
  "numbers (JNumber t) = [t]"
| "numbers (JArray vs) = numbersList vs"
| "numbers (JsonList vs) = numbersList vs"
| "numbers (JObject ms) = numbersMembers ms"
| "numbers JNull = []"
| "numbers (JBool b) = []"
| "numbers (JInt i) = []"
| "numbers (JString s) = []"
| "numbersList [] = []"
| "numbersList (v # vs) = numbers v @ numbersList vs"
| "numbersMembers [] = []"
| "numbersMembers (m # ms) = numbers (snd m) @ numbersMembers ms"

definition written :: "string \<Rightarrow> string" where
  "written t = (if t = '''' then ''0'' else t)"

section \<open>Properties\<close>

lemma findEnum_None: "findEnum vs c i = None \<longleftrightarrow> c \<notin> set vs"
  by (induction vs arbitrary: i) auto

lemma findEnum_Some:
  "findEnum vs c i = Some k \<Longrightarrow>
     i \<le> k \<and> k - i < length vs \<and> vs ! (k - i) = c \<and> (\<forall>j < k - i. vs ! j \<noteq> c)"
proof (induction vs arbitrary: i)
  case Nil
  then show ?case by simp
next
  case (Cons v vs)
  show ?case
  proof (cases "v = c")
    case True
    with Cons.prems show ?thesis by simp
  next
    case False
    with Cons.prems have f: "findEnum vs c (Suc i) = Some k" by simp
    from Cons.IH [OF f] have ih: "Suc i \<le> k" "k - Suc i < length vs"
      "vs ! (k - Suc i) = c" "\<forall>j < k - Suc i. vs ! j \<noteq> c" by auto
    from ih(1) have e: "k - i = Suc (k - Suc i)" by simp
    have "\<forall>j < k - i. (v # vs) ! j \<noteq> c"
    proof (intro allI impI)
      fix j assume "j < k - i"
      then show "(v # vs) ! j \<noteq> c"
        using False ih(4) e by (cases j) auto
    qed
    with ih e show ?thesis by simp
  qed
qed

text \<open>
  C9. For an enum-kind type, character data equal to a label converts to the index of the
  first label equal to it, and character data equal to no label is passed through as the
  raw string; no error arises.
\<close>

theorem C9_enum_label_to_index_or_raw:
  "SimpleType typ = T_ENUM \<Longrightarrow>
     (chardata \<notin> set (EnumValues typ) \<longrightarrow> convertSimpleToJson typ chardata = JString chardata)
     \<and> (chardata \<in> set (EnumValues typ) \<longrightarrow>
          (\<exists>idx < length (EnumValues typ).
             convertSimpleToJson typ chardata = JInt (int idx)
             \<and> EnumValues typ ! idx = chardata
             \<and> (\<forall>j < idx. EnumValues typ ! j \<noteq> chardata)))"
proof -
  assume k: "SimpleType typ = T_ENUM"
  show ?thesis
  proof (cases "findEnum (EnumValues typ) chardata 0")
    case None
    then have "chardata \<notin> set (EnumValues typ)" by (simp add: findEnum_None)
    with None k show ?thesis by (simp add: convertSimpleToJson_def simple_kinds)
  next
    case (Some idx)
    from findEnum_Some [OF Some] have
      p: "idx < length (EnumValues typ)" "EnumValues typ ! idx = chardata"
         "\<forall>j < idx. EnumValues typ ! j \<noteq> chardata" by auto
    from Some have "chardata \<in> set (EnumValues typ)"
      using findEnum_None [of "EnumValues typ" chardata 0] by simp
    moreover have "convertSimpleToJson typ chardata = JInt (int idx)"
      using Some k by (simp add: convertSimpleToJson_def simple_kinds)
    ultimately show ?thesis using p by blast
  qed
qed

theorem C9_enum_label_to_index_or_raw_witness:
  "convertSimpleToJson (emptyType\<lparr>IsSimple := True, SimpleType := T_ENUM,
        EnumValues := [''None'', ''A'', ''B'', ''A'']\<rparr>) ''A'' = JInt 1
   \<and> convertSimpleToJson (emptyType\<lparr>IsSimple := True, SimpleType := T_ENUM,
        EnumValues := [''None'', ''A'', ''B'', ''A'']\<rparr>) ''Exchange2016'' = JString ''Exchange2016''"
proof -
  let ?t = "emptyType\<lparr>IsSimple := True, SimpleType := T_ENUM,
        EnumValues := [''None'', ''A'', ''B'', ''A'']\<rparr>"
  have k: "SimpleType ?t = T_ENUM" by simp
  have v: "EnumValues ?t = [''None'', ''A'', ''B'', ''A'']" by simp
  from C9_enum_label_to_index_or_raw [OF k, of "''A''"] obtain idx where
    i: "convertSimpleToJson ?t ''A'' = JInt (int idx)" and
    l: "idx < length (EnumValues ?t)" and
    f: "\<forall>j < idx. EnumValues ?t ! j \<noteq> ''A''"
    unfolding v by auto
  have "idx = 1"
  proof (rule ccontr)
    assume "idx \<noteq> 1"
    then have "1 < idx \<or> idx = 0" by arith
    then show False
    proof
      assume "1 < idx"
      with f have "EnumValues ?t ! 1 \<noteq> ''A''" by blast
      then show False by simp
    next
      assume z: "idx = 0"
      from C9_enum_label_to_index_or_raw [OF k, of "''A''"] i have "EnumValues ?t ! idx = ''A''"
        unfolding v by auto
      with z show False by simp
    qed
  qed
  with i have a: "convertSimpleToJson ?t ''A'' = JInt 1" by simp
  from C9_enum_label_to_index_or_raw [OF k, of "''Exchange2016''"]
  have b: "convertSimpleToJson ?t ''Exchange2016'' = JString ''Exchange2016''"
    unfolding v by simp
  from a b show ?thesis by simp
qed

subsection \<open>The discriminator comes first\<close>

lemma firstIs_Set:
  "firstIs c k v ob \<Longrightarrow> (c \<longrightarrow> key \<noteq> k) \<Longrightarrow> firstIs c k v (Set ob key x)"
  by (cases ob) (auto simp: firstIs_def)

lemma firstIs_Get: "firstIs c k v ob \<Longrightarrow> Get ob k = Some (snd (hd ob))"
  by (cases ob) (auto simp: firstIs_def Get_def)

lemma firstIs_Set_Get:
  "firstIs c k v ob \<Longrightarrow> Get ob key = None \<Longrightarrow> firstIs c k v (Set ob key x)"
  by (cases ob) (auto simp: firstIs_def Get_def split: if_splits)

lemma firstIs_Set_array:
  "firstIs c k v ob \<Longrightarrow> Get ob key = Some (JArray a) \<Longrightarrow> (c \<longrightarrow> v \<noteq> JArray a)
     \<Longrightarrow> firstIs c k v (Set ob key x)"
  by (cases ob) (auto simp: firstIs_def Get_def split: if_splits)

lemma firstIs_new: "firstIs c k v (Set [] k v)"
  by (simp add: firstIs_def)

lemma hinted_Set:
  "hinted typ ob \<Longrightarrow> (typeKeyReserved typ \<longrightarrow> key \<noteq> ''__type'') \<Longrightarrow> hinted typ (Set ob key x)"
  by (simp add: hinted_def firstIs_Set)

lemma hinted_Set_None:
  "hinted typ ob \<Longrightarrow> Get ob key = None \<Longrightarrow> hinted typ (Set ob key x)"
  by (simp add: hinted_def firstIs_Set_Get)

lemma hinted_Set_array:
  "hinted typ ob \<Longrightarrow> Get ob key = Some (JArray a) \<Longrightarrow> hinted typ (Set ob key x)"
  by (auto simp: hinted_def intro: firstIs_Set_array)

lemma hinted_new:
  "hinted typ (if JsonType typ \<noteq> '''' then Set [] ''__type'' (JString (JsonType typ)) else [])"
  by (simp add: hinted_def firstIs_def)

lemma initAttrs_hinted:
  "initAttrs reg typ attrs ob = Inr ob' \<Longrightarrow> hinted typ ob \<Longrightarrow> hinted typ ob'"
proof (induction attrs arbitrary: ob)
  case Nil
  then show ?case by simp
next
  case (Cons attr attrs)
  show ?case
  proof (cases "Space (attr_Name attr) \<noteq> ''xmlns'' \<and> Local (attr_Name attr) \<noteq> ''xmlns''")
    case False
    with Cons show ?thesis by auto
  next
    case True
    from Cons.prems(1) True obtain atype at where
      a: "map_of (Attrs typ) (Local (attr_Name attr)) = Some atype"
      and t: "ewsTypes reg atype = Some at"
      and r: "initAttrs reg typ attrs
                (Set ob (case map_of (AttrsNames typ) (Local (attr_Name attr)) of
                           Some n \<Rightarrow> n | None \<Rightarrow> '''')
                   (convertSimpleToJson at (attr_Value attr))) = Inr ob'"
      by (auto split: option.splits)
    have "typeKeyReserved typ \<longrightarrow>
            (case map_of (AttrsNames typ) (Local (attr_Name attr)) of
               Some n \<Rightarrow> n | None \<Rightarrow> '''') \<noteq> ''__type''"
      by (auto simp: typeKeyReserved_def split: option.splits dest!: map_of_SomeD
            intro: rev_image_eqI)
    with Cons.prems(2) have "hinted typ
              (Set ob (case map_of (AttrsNames typ) (Local (attr_Name attr)) of
                           Some n \<Rightarrow> n | None \<Rightarrow> '''')
                   (convertSimpleToJson at (attr_Value attr)))"
      by (rule hinted_Set)
    with Cons.IH r show ?thesis by blast
  qed
qed

lemma initRetObject_linv: "initRetObject reg el typ = Inr st \<Longrightarrow> linv typ st"
proof -
  assume a: "initRetObject reg el typ = Inr st"
  have h0: "hinted typ (if JsonType typ \<noteq> '''' then Set [] ''__type'' (JString (JsonType typ)) else [])"
    by (rule hinted_new)
  show ?thesis
  proof (cases "\<not> IsSimple typ \<or> TextAttr typ \<noteq> ''''")
    case False
    with a show ?thesis by (auto simp: initRetObject_def linv_def)
  next
    case c1: True
    show ?thesis
    proof (cases "JsonListName typ \<noteq> '''' \<or> IsList typ")
      case False
      with a c1 obtain ob where
        "initAttrs reg typ (el_Attr el)
           (if JsonType typ \<noteq> '''' then Set [] ''__type'' (JString (JsonType typ)) else []) = Inr ob"
        "st = \<lparr>obj = Some ob, listObj = [], ret = RObj\<rparr>"
        by (auto simp: initRetObject_def split: sum.splits)
      with h0 show ?thesis by (auto simp: linv_def dest: initAttrs_hinted)
    next
      case c2: True
      show ?thesis
      proof (cases "JsonListName typ \<noteq> ''''")
        case False
        with a c1 c2 show ?thesis
          by (auto simp: initRetObject_def linv_def split: if_splits)
      next
        case True
        have "hinted typ (Set (if JsonType typ \<noteq> '''' then Set [] ''__type'' (JString (JsonType typ)) else [])
                (JsonListName typ) (JsonList []))"
          using h0 by (rule hinted_Set) (simp add: typeKeyReserved_def)
        with a c1 c2 True show ?thesis
          by (auto simp: initRetObject_def linv_def split: if_splits)
      qed
    qed
  qed
qed

lemma convertSimpleToJson_scalar: "convertSimpleToJson t s \<noteq> JObject m"
  by (simp add: convertSimpleToJson_def split: option.splits)

lemma hinted_Set_JsonListName:
  "hinted typ ob \<Longrightarrow> hinted typ (Set ob (JsonListName typ) x)"
  by (rule hinted_Set) (simp_all add: typeKeyReserved_def)

lemma hinted_Set_TextAttr:
  "hinted typ ob \<Longrightarrow> hinted typ (Set ob (TextAttr typ) x)"
  by (rule hinted_Set) (simp_all add: typeKeyReserved_def)

lemma linv_obj: "linv typ st \<Longrightarrow> hinted typ ob' \<Longrightarrow> linv typ (st\<lparr>obj := Some ob'\<rparr>)"
  by (simp add: linv_def)

lemma linv_obj_listObj:
  "linv typ st \<Longrightarrow> hinted typ ob' \<Longrightarrow> linv typ (st\<lparr>listObj := l, obj := Some ob'\<rparr>)"
  by (simp add: linv_def)

lemma linv_objD: "linv typ st \<Longrightarrow> obj st = Some ob \<Longrightarrow> hinted typ ob"
  by (simp add: linv_def)

lemma installChild_linv:
  assumes ic: "installChild typ nextElem nextType newItem st = Inr st'"
    and inv: "linv typ st"
  shows "linv typ st'"
proof (cases "JsonListName typ \<noteq> ''''")
  case True
  with ic obtain ob where o: "obj st = Some ob"
    and s: "st' = st\<lparr>listObj := listObj st @ [newItem],
                     obj := Some (Set ob (JsonListName typ) (JArray (listObj st @ [newItem])))\<rparr>"
    by (auto simp: installChild_def split: option.splits)
  from inv o have "hinted typ ob" by (rule linv_objD)
  then have "hinted typ (Set ob (JsonListName typ) (JArray (listObj st @ [newItem])))"
    by (rule hinted_Set_JsonListName)
  with inv show ?thesis unfolding s by (rule linv_obj_listObj)
next
  case c1: False
  show ?thesis
  proof (cases "IsList typ")
    case True
    with ic c1 inv show ?thesis by (auto simp: installChild_def linv_def)
  next
    case c2: False
    show ?thesis
    proof (cases "xe_IsList nextElem")
      case True
      with ic c1 c2 obtain ob where o: "obj st = Some ob"
        by (auto simp: installChild_def split: option.splits)
      from inv o have h: "hinted typ ob" by (rule linv_objD)
      show ?thesis
      proof (cases "Get ob (xe_JsonName nextElem)")
        case None
        with ic c1 c2 True o have
          s: "st' = st\<lparr>obj := Some (Set ob (xe_JsonName nextElem) (JArray [newItem]))\<rparr>"
          by (auto simp: installChild_def)
        from h None have "hinted typ (Set ob (xe_JsonName nextElem) (JArray [newItem]))"
          by (rule hinted_Set_None)
        with inv show ?thesis unfolding s by (rule linv_obj)
      next
        case (Some elistIf)
        with ic c1 c2 True o obtain elist where e: "elistIf = JArray elist"
          and s: "st' = st\<lparr>obj := Some (Set ob (xe_JsonName nextElem)
                                              (JArray (elist @ [newItem])))\<rparr>"
          by (auto simp: installChild_def split: json.splits)
        from h Some e have "hinted typ (Set ob (xe_JsonName nextElem) (JArray (elist @ [newItem])))"
          by (auto intro: hinted_Set_array)
        with inv show ?thesis unfolding s by (rule linv_obj)
      qed
    next
      case c3: False
      with ic c1 c2 obtain ob x where o: "obj st = Some ob"
        and g: "Get ob (xe_JsonName nextElem) = None"
        and s: "st' = st\<lparr>obj := Some (Set ob (xe_JsonName nextElem) x)\<rparr>"
        by (auto simp: installChild_def split: option.splits if_splits)
      from inv o have h: "hinted typ ob" by (rule linv_objD)
      from h g have "hinted typ (Set ob (xe_JsonName nextElem) x)"
        by (rule hinted_Set_None)
      with inv show ?thesis unfolding s by (rule linv_obj)
    qed
  qed
qed

lemma charData_linv:
  assumes cd: "charData typ s st = Inr st'" and inv: "linv typ st"
  shows "linv typ st'"
proof (cases "TextAttr typ \<noteq> ''''")
  case True
  with cd obtain ob where o: "obj st = Some ob"
    and s: "st' = st\<lparr>obj := Some (Set ob (TextAttr typ) (convertSimpleToJson typ s)),
                     ret := RObj\<rparr>"
    by (auto simp: charData_def split: option.splits)
  from inv o have "hinted typ ob" by (rule linv_objD)
  then have "hinted typ (Set ob (TextAttr typ) (convertSimpleToJson typ s))"
    by (rule hinted_Set_TextAttr)
  then show ?thesis unfolding s by (simp add: linv_def)
next
  case False
  with cd inv show ?thesis
    by (auto simp: charData_def linv_def convertSimpleToJson_scalar)
qed

lemma insertDefaults_hinted: "hinted typ ob \<Longrightarrow> hinted typ (insertDefaults ds ob)"
  by (induction ds arbitrary: ob) (auto intro: hinted_Set_None)

lemma applyJsonHook_hinted: "hinted typ ob \<Longrightarrow> hinted typ (applyJsonHook h t ob)"
  by (cases h) (auto intro: hinted_Set_None)

lemma endElement_hinted:
  "linv typ st \<Longrightarrow> endElement typ st = JObject ob \<Longrightarrow> hinted typ ob"
  unfolding endElement_def linv_def
  by (auto split: ret.splits option.splits intro: insertDefaults_hinted applyJsonHook_hinted)

lemma processElement_hinted_aux:
  "\<forall>ob d' t. typ' = Some t \<and> processElement reg d el typ' = Inr (JObject ob, d')
      \<longrightarrow> hinted t ob"
  "\<forall>ob d'. linv typ st \<and> elementLoop reg d el typ st = Inr (JObject ob, d')
      \<longrightarrow> hinted typ ob"
proof (induct reg d el typ' and reg d el "typ" st rule: processElement_elementLoop.induct)
  case (1 reg d el)
  then show ?case by simp
next
  case (2 reg d el ty)
  have "linv ty \<lparr>obj = None, listObj = [], ret = RNil\<rparr>" by (simp add: linv_def)
  with 2 show ?case
    by (auto split: if_splits sum.splits dest: initRetObject_linv)
next
  case (3 reg el ty st)
  then show ?case by simp
next
  case (4 reg tokel d el ty st)
  show ?case
  proof (intro allI impI, elim conjE)
    fix ob d'
    assume inv: "linv ty st"
      and run: "elementLoop reg (TStart tokel # d) el ty st = Inr (JObject ob, d')"
    from run obtain st1 nextElem newItem d1 st2 where
      s1: "(if ret st = RNil then initRetObject reg el ty else Inr st) = Inr st1"
      and ne: "map_of (TypeByElementName ty) (Local (el_Name tokel)) = Some nextElem"
      and pe: "processElement reg d tokel (ewsTypes reg (xe_Type nextElem)) = Inr (newItem, d1)"
      and ic: "installChild ty nextElem (ewsTypes reg (xe_Type nextElem)) newItem st1 = Inr st2"
      and lp: "elementLoop reg d1 el ty st2 = Inr (JObject ob, d')"
      by (auto split: sum.splits option.splits prod.splits)
    from s1 inv have "linv ty st1" by (auto split: if_splits dest: initRetObject_linv)
    with ic have "linv ty st2" by (rule installChild_linv)
    with 4(2) [OF s1 ne pe refl ic] lp show "hinted ty ob" by blast
  qed
next
  case (5 reg n d el ty st)
  then show ?case by (auto dest: endElement_hinted)
next
  case (6 reg tokel d el ty st)
  show ?case
  proof (intro allI impI, elim conjE)
    fix ob d'
    assume inv: "linv ty st"
      and run: "elementLoop reg (TCharData tokel # d) el ty st = Inr (JObject ob, d')"
    show "hinted ty ob"
    proof (cases "length (Trim tokel cutset) \<noteq> 0")
      case False
      with 6(2) inv run show ?thesis by auto
    next
      case True
      with run obtain st1 st2 where
        s1: "(if ret st = RNil then initRetObject reg el ty else Inr st) = Inr st1"
        and cd: "charData ty (Trim tokel cutset) st1 = Inr st2"
        and lp: "elementLoop reg d el ty st2 = Inr (JObject ob, d')"
        by (auto split: sum.splits)
      from s1 inv have "linv ty st1" by (auto split: if_splits dest: initRetObject_linv)
      with cd have "linv ty st2" by (rule charData_linv)
      with 6(1) [OF True s1 cd] lp show ?thesis by blast
    qed
  qed
next
  case (7 reg d el ty st)
  then show ?case by auto
qed

lemma processElement_hinted:
  "processElement reg d el (Some typ) = Inr (JObject ob, d') \<Longrightarrow> hinted typ ob"
  using processElement_hinted_aux(1) [of "Some typ" reg d el, rule_format, of "typ" ob d']
  by simp

lemma installChild_leafinv:
  "installChild typ nextElem nextType newItem st = Inr st' \<Longrightarrow> leafinv st \<Longrightarrow> leafinv st'"
  by (auto simp: installChild_def leafinv_def split: if_splits option.splits)

lemma charData_leafinv:
  "charData typ s st = Inr st' \<Longrightarrow> TextAttr typ = '''' \<Longrightarrow> leafinv st \<Longrightarrow> leafinv st'"
  by (auto simp: charData_def leafinv_def convertSimpleToJson_scalar)

lemma initRetObject_leafinv:
  "initRetObject reg el typ = Inr st \<Longrightarrow> IsSimple typ \<Longrightarrow> TextAttr typ = '''' \<Longrightarrow> leafinv st"
  by (auto simp: initRetObject_def leafinv_def)

lemma endElement_leaf: "leafinv st \<Longrightarrow> endElement typ st \<noteq> JObject m"
  by (auto simp: endElement_def leafinv_def split: ret.splits)

lemma processElement_leaf_aux:
  "\<forall>v d' t. typ' = Some t \<and> IsSimple t \<and> TextAttr t = ''''
      \<and> processElement reg d el typ' = Inr (v, d') \<longrightarrow> (\<forall>m. v \<noteq> JObject m)"
  "\<forall>v d'. IsSimple typ \<and> TextAttr typ = '''' \<and> leafinv st
      \<and> elementLoop reg d el typ st = Inr (v, d') \<longrightarrow> (\<forall>m. v \<noteq> JObject m)"
proof (induct reg d el typ' and reg d el "typ" st rule: processElement_elementLoop.induct)
  case (1 reg d el)
  then show ?case by simp
next
  case (2 reg d el ty)
  have "leafinv \<lparr>obj = None, listObj = [], ret = RNil\<rparr>" by (simp add: leafinv_def)
  with 2 show ?case
    by (auto split: if_splits sum.splits dest: initRetObject_leafinv)
next
  case (3 reg el ty st)
  then show ?case by simp
next
  case (4 reg tokel d el ty st)
  show ?case
  proof (intro allI impI, elim conjE)
    fix v d' m
    assume leaf: "IsSimple ty" "TextAttr ty = ''''" and inv: "leafinv st"
      and run: "elementLoop reg (TStart tokel # d) el ty st = Inr (v, d')"
    from run obtain st1 nextElem newItem d1 st2 where
      s1: "(if ret st = RNil then initRetObject reg el ty else Inr st) = Inr st1"
      and ne: "map_of (TypeByElementName ty) (Local (el_Name tokel)) = Some nextElem"
      and pe: "processElement reg d tokel (ewsTypes reg (xe_Type nextElem)) = Inr (newItem, d1)"
      and ic: "installChild ty nextElem (ewsTypes reg (xe_Type nextElem)) newItem st1 = Inr st2"
      and lp: "elementLoop reg d1 el ty st2 = Inr (v, d')"
      by (auto split: sum.splits option.splits prod.splits)
    from s1 inv leaf have "leafinv st1"
      by (auto split: if_splits dest: initRetObject_leafinv)
    with ic have "leafinv st2" by (rule installChild_leafinv)
    with 4(2) [OF s1 ne pe refl ic] lp leaf show "v \<noteq> JObject m" by blast
  qed
next
  case (5 reg n d el ty st)
  then show ?case by (auto dest: endElement_leaf)
next
  case (6 reg tokel d el ty st)
  show ?case
  proof (intro allI impI, elim conjE)
    fix v d' m
    assume leaf: "IsSimple ty" "TextAttr ty = ''''" and inv: "leafinv st"
      and run: "elementLoop reg (TCharData tokel # d) el ty st = Inr (v, d')"
    show "v \<noteq> JObject m"
    proof (cases "length (Trim tokel cutset) \<noteq> 0")
      case False
      with 6(2) inv run leaf show ?thesis by auto
    next
      case True
      with run obtain st1 st2 where
        s1: "(if ret st = RNil then initRetObject reg el ty else Inr st) = Inr st1"
        and cd: "charData ty (Trim tokel cutset) st1 = Inr st2"
        and lp: "elementLoop reg d el ty st2 = Inr (v, d')"
        by (auto split: sum.splits)
      from s1 inv leaf have "leafinv st1"
        by (auto split: if_splits dest: initRetObject_leafinv)
      with cd leaf have "leafinv st2" by (auto dest: charData_leafinv)
      with 6(1) [OF True s1 cd] lp leaf show ?thesis by blast
    qed
  qed
next
  case (7 reg d el ty st)
  then show ?case by auto
qed

lemma processElement_leaf:
  "processElement reg d el (Some typ) = Inr (v, d') \<Longrightarrow> IsSimple typ \<Longrightarrow> TextAttr typ = ''''
     \<Longrightarrow> v \<noteq> JObject m"
  using processElement_leaf_aux(1) [of "Some typ" reg d el, rule_format, of "typ" v d' m]
  by simp

lemma processSoapElement_Some:
  assumes a: "processSoapElement reg d el typ' jsonType = Inr (Some bdy, d')"
    and j: "jsonType \<noteq> ''''"
  shows "\<exists>ob. processElement reg d el typ' = Inr (JObject ob, d')
       \<and> bdy = (if ob \<noteq> [] \<and> fst (hd ob) = ''__type''
                then (''__type'', JString jsonType) # tl ob
                else (''__type'', JString jsonType) # ob)"
proof (cases "processElement reg d el typ'")
  case (Inl e)
  with a show ?thesis by (simp add: processSoapElement_def)
next
  case (Inr r)
  obtain anyElem d1 where r: "r = (anyElem, d1)" by (cases r)
  show ?thesis
  proof (cases anyElem)
    case (JObject ob)
    show ?thesis
    proof (cases ob)
      case Nil
      with a j Inr r JObject show ?thesis by (simp add: processSoapElement_def)
    next
      case (Cons m ms)
      with a j Inr r JObject show ?thesis
        by (cases "fst m = ''__type''") (auto simp: processSoapElement_def)
    qed
  qed (use a Inr r in \<open>simp_all add: processSoapElement_def\<close>)
qed

text \<open>
  C1. For a type with a non-empty JSON discriminator, every object that
  \<^verbatim>\<open>processElement\<close> returns for the type has \<^verbatim>\<open>__type\<close> as its first key, and the
  value there is the discriminator when the type keeps the key \<^verbatim>\<open>__type\<close> for it
  (\<open>typeKeyReserved\<close>); the value of a scalar leaf (a simple type without text attribute)
  is never an object; and the object that \<^verbatim>\<open>processSoapElement\<close> returns under a
  non-empty hint (the Body, with the operation's body type) is the translated object with
  the hint put in front of it, or in the place of a first \<^verbatim>\<open>__type\<close> member.
\<close>

theorem C1_type_hint_first:
  "(JsonType typ \<noteq> '''' \<and> processElement reg d el (Some typ) = Inr (JObject ob, d') \<longrightarrow>
      ob \<noteq> [] \<and> fst (hd ob) = ''__type''
      \<and> (typeKeyReserved typ \<longrightarrow> snd (hd ob) = JString (JsonType typ)))
   \<and> (IsSimple typ \<and> TextAttr typ = '''' \<and> processElement reg d el (Some typ) = Inr (v, d'')
        \<longrightarrow> (\<forall>m. v \<noteq> JObject m))
   \<and> (jsonType \<noteq> '''' \<and> processSoapElement reg d el typ' jsonType = Inr (Some bdy, d3) \<longrightarrow>
        hd bdy = (''__type'', JString jsonType)
        \<and> (\<exists>ob'. processElement reg d el typ' = Inr (JObject ob', d3)
              \<and> bdy = (if ob' \<noteq> [] \<and> fst (hd ob') = ''__type''
                       then (''__type'', JString jsonType) # tl ob'
                       else (''__type'', JString jsonType) # ob')))"
proof (intro conjI impI)
  assume a: "JsonType typ \<noteq> '''' \<and> processElement reg d el (Some typ) = Inr (JObject ob, d')"
  then have "hinted typ ob" by (intro processElement_hinted [of reg d el "typ" ob d']) (rule conjunct2)
  with a have f: "firstIs (typeKeyReserved typ) ''__type'' (JString (JsonType typ)) ob"
    by (simp add: hinted_def)
  from f show "ob \<noteq> []" by (simp add: firstIs_def)
  from f show "fst (hd ob) = ''__type''" by (simp add: firstIs_def)
  from f show "typeKeyReserved typ \<Longrightarrow> snd (hd ob) = JString (JsonType typ)"
    by (simp add: firstIs_def)
next
  assume "IsSimple typ \<and> TextAttr typ = '''' \<and> processElement reg d el (Some typ) = Inr (v, d'')"
  then show "\<forall>m. v \<noteq> JObject m"
    using processElement_leaf [of reg d el "typ" v d''] by (elim conjE) (intro allI, blast)
next
  assume a: "jsonType \<noteq> '''' \<and> processSoapElement reg d el typ' jsonType = Inr (Some bdy, d3)"
  then obtain ob' where p: "processElement reg d el typ' = Inr (JObject ob', d3)"
    and b: "bdy = (if ob' \<noteq> [] \<and> fst (hd ob') = ''__type''
                       then (''__type'', JString jsonType) # tl ob'
                       else (''__type'', JString jsonType) # ob')"
    using processSoapElement_Some by blast
  from b show "hd bdy = (''__type'', JString jsonType)" by simp
  from p b show "\<exists>ob'. processElement reg d el typ' = Inr (JObject ob', d3)
              \<and> bdy = (if ob' \<noteq> [] \<and> fst (hd ob') = ''__type''
                       then (''__type'', JString jsonType) # tl ob'
                       else (''__type'', JString jsonType) # ob')" by blast
qed

theorem C1_type_hint_first_witness:
  "processElement exReg
     [tag ''FolderShape'', tag ''BaseShape'', TCharData ''IdOnly'', endTag ''BaseShape'',
      endTag ''FolderShape'', endTag ''GetFolder'', endTag ''Body'']
     (StartElement (XmlName '''' ''GetFolder'') []) (Some exGetFolder)
   = Inr (JObject [(''__type'', JString ''GetFolderRequest:#Exchange''),
                   (''FolderShape'',
                    JObject [(''__type'', JString ''FolderResponseShape:#Exchange''),
                             (''BaseShape'', JString ''IdOnly'')])], [endTag ''Body''])
   \<and> JsonType exGetFolder = ''GetFolderRequest:#Exchange'' \<and> typeKeyReserved exGetFolder
   \<and> hd [(''__type'', JString ''GetFolderRequest:#Exchange''),
          (''FolderShape'',
           JObject [(''__type'', JString ''FolderResponseShape:#Exchange''),
                    (''BaseShape'', JString ''IdOnly'')])]
       = (''__type'', JString (JsonType exGetFolder))
   \<and> IsSimple exString \<and> TextAttr exString = ''''
   \<and> processElement exReg [TCharData ''IdOnly'', endTag ''BaseShape'']
         (StartElement (XmlName '''' ''BaseShape'') []) (Some exString)
       = Inr (JString ''IdOnly'', [])
   \<and> processSoapElement exReg
         [tag ''FolderShape'', endTag ''FolderShape'', endTag ''GetFolder'', endTag ''Body'']
         (StartElement (XmlName '''' ''GetFolder'') []) (Some exGetFolder) ''Hint:#Exchange''
       = Inr (Some [(''__type'', JString ''Hint:#Exchange''), (''FolderShape'', JNull)],
              [endTag ''Body''])"
proof -
  let ?ob = "[(''__type'', JString ''GetFolderRequest:#Exchange''),
                   (''FolderShape'',
                    JObject [(''__type'', JString ''FolderResponseShape:#Exchange''),
                             (''BaseShape'', JString ''IdOnly'')])]"
  have p1: "processElement exReg
     [tag ''FolderShape'', tag ''BaseShape'', TCharData ''IdOnly'', endTag ''BaseShape'',
      endTag ''FolderShape'', endTag ''GetFolder'', endTag ''Body'']
     (StartElement (XmlName '''' ''GetFolder'') []) (Some exGetFolder)
   = Inr (JObject ?ob, [endTag ''Body''])" by code_simp
  have j: "JsonType exGetFolder = ''GetFolderRequest:#Exchange''" by code_simp
  have r: "typeKeyReserved exGetFolder" by code_simp
  have s: "IsSimple exString" "TextAttr exString = ''''" by code_simp+
  have p2: "processElement exReg [TCharData ''IdOnly'', endTag ''BaseShape'']
         (StartElement (XmlName '''' ''BaseShape'') []) (Some exString)
       = Inr (JString ''IdOnly'', [])" by code_simp
  have p3: "processSoapElement exReg
         [tag ''FolderShape'', endTag ''FolderShape'', endTag ''GetFolder'', endTag ''Body'']
         (StartElement (XmlName '''' ''GetFolder'') []) (Some exGetFolder) ''Hint:#Exchange''
       = Inr (Some [(''__type'', JString ''Hint:#Exchange''), (''FolderShape'', JNull)],
              [endTag ''Body''])" by code_simp
  from C1_type_hint_first [of exGetFolder exReg
     "[tag ''FolderShape'', tag ''BaseShape'', TCharData ''IdOnly'', endTag ''BaseShape'',
      endTag ''FolderShape'', endTag ''GetFolder'', endTag ''Body'']"
     "StartElement (XmlName '''' ''GetFolder'') []" ?ob "[endTag ''Body'']"] p1 j r
  have h: "hd ?ob = (''__type'', JString (JsonType exGetFolder))"
    by (simp add: prod_eq_iff)
  from C1_type_hint_first [of exString exReg "[TCharData ''IdOnly'', endTag ''BaseShape'']"
     "StartElement (XmlName '''' ''BaseShape'') []" _ _ "JString ''IdOnly''" "[]"] s p2
  have l: "\<forall>m. JString ''IdOnly'' \<noteq> JObject m" by simp
  from C1_type_hint_first [of _ exReg
     "[tag ''FolderShape'', endTag ''FolderShape'', endTag ''GetFolder'', endTag ''Body'']"
     "StartElement (XmlName '''' ''GetFolder'') []" _ _ _ _ "''Hint:#Exchange''"
     "Some exGetFolder" "[(''__type'', JString ''Hint:#Exchange''), (''FolderShape'', JNull)]"
     "[endTag ''Body'']"] p3
  have b: "hd [(''__type'', JString ''Hint:#Exchange''), (''FolderShape'', JNull)]
             = (''__type'', JString ''Hint:#Exchange'')" by simp
  from p1 j r h s p2 p3 l b show ?thesis by (intro conjI)
qed

subsection \<open>The header of the request\<close>

lemma getNextElement_suffix:
  "getNextElement x w = Inr (t, x') \<Longrightarrow> suffix (t # x') x"
  by (induction x w rule: getNextElement.induct) (auto split: if_splits intro: suffix_ConsI)

lemma getNextStartElement_suffix:
  "getNextStartElement x = Inr (el, x') \<Longrightarrow> suffix (TStart el # x') x"
  by (auto simp: getNextStartElement_def split: sum.splits Token.splits
        dest: getNextElement_suffix)

lemma processElement_suffix_aux:
  "\<forall>v d'. processElement reg d el typ' = Inr (v, d') \<longrightarrow> suffix d' d"
  "\<forall>v d'. elementLoop reg d el typ st = Inr (v, d') \<longrightarrow> suffix d' d"
proof (induct reg d el typ' and reg d el "typ" st rule: processElement_elementLoop.induct)
  case (4 reg tokel d el ty st)
  show ?case
  proof (intro allI impI)
    fix v d'
    assume run: "elementLoop reg (TStart tokel # d) el ty st = Inr (v, d')"
    from run obtain st1 nextElem newItem d1 st2 where
      s1: "(if ret st = RNil then initRetObject reg el ty else Inr st) = Inr st1"
      and ne: "map_of (TypeByElementName ty) (Local (el_Name tokel)) = Some nextElem"
      and pe: "processElement reg d tokel (ewsTypes reg (xe_Type nextElem)) = Inr (newItem, d1)"
      and ic: "installChild ty nextElem (ewsTypes reg (xe_Type nextElem)) newItem st1 = Inr st2"
      and lp: "elementLoop reg d1 el ty st2 = Inr (v, d')"
      by (auto split: sum.splits option.splits prod.splits)
    from 4(1) [OF s1 ne] pe have "suffix d1 d" by blast
    moreover from 4(2) [OF s1 ne pe refl ic] lp have "suffix d' d1" by blast
    ultimately show "suffix d' (TStart tokel # d)"
      by (meson suffix_ConsI suffix_order.trans)
  qed
next
  case (6 reg tokel d el ty st)
  then show ?case
    apply (simp split: if_splits sum.splits)
    apply (auto intro: suffix_ConsI)
    done
qed (auto split: if_splits sum.splits intro: suffix_ConsI)

lemma processElement_suffix:
  "processElement reg d el typ' = Inr (v, d') \<Longrightarrow> suffix d' d"
  using processElement_suffix_aux(1) [of reg d el typ', rule_format, of v d'] by simp

lemma processSoapElement_suffix:
  assumes "processSoapElement reg d el typ' jt = Inr (r, d')"
  shows "suffix d' d"
proof (cases "processElement reg d el typ'")
  case (Inl e)
  with assms show ?thesis by (simp add: processSoapElement_def)
next
  case (Inr p)
  obtain v d1 where p: "p = (v, d1)" by (cases p)
  from Inr p have "suffix d1 d" by (auto dest: processElement_suffix)
  moreover from assms Inr p have "d' = d1"
    by (auto simp: processSoapElement_def split: if_splits json.splits list.splits)
  ultimately show ?thesis by simp
qed

lemma headerElementIn_suffix:
  "headerElementIn reg d' h \<Longrightarrow> suffix d' d \<Longrightarrow> headerElementIn reg d h"
  unfolding headerElementIn_def by (meson suffix_order.trans)

lemma soapLoop_header:
  "soapLoop reg d st = Inr (st', d') \<Longrightarrow>
     (gotHeader st \<longrightarrow> header st' = header st)
     \<and> (\<not> gotHeader st \<longrightarrow>
          (\<exists>h. headerElementIn reg d h
             \<and> header st' = Some (case h of Some h' \<Rightarrow> headerHack h' | None \<Rightarrow> customHeader)))"
proof (induction reg d st arbitrary: st' d' rule: soapLoop.induct)
  case (1 reg d st)
  show ?case
  proof (cases "\<not> gotHeader st \<or> \<not> gotBody st")
    case False
    with "1.prems" show ?thesis by (simp add: soapLoop.simps)
  next
    case more: True
    with "1.prems" obtain el d1 where g: "getNextStartElement d = Inr (el, d1)"
      by (cases "getNextStartElement d") (auto simp: soapLoop.simps [of reg d st])
    from g have sf1: "suffix (TStart el # d1) d" by (rule getNextStartElement_suffix)
    then have sf1': "suffix d1 d" by (rule suffix_ConsD)
    show ?thesis
    proof (cases "Local (el_Name el) = ''Header''")
      case hd: True
      with "1.prems" more g have ngh: "\<not> gotHeader st"
        by (auto simp: soapLoop.simps [of reg d st])
      with "1.prems" more g hd obtain hdr d2 where
        p: "processSoapElement reg d1 el (Some (EwsSoapRequestHeader reg))
              (JsonType (EwsSoapRequestHeader reg)) = Inr (hdr, d2)"
        and r: "soapLoop reg d2
                  (st\<lparr>header := (case hdr of Some h \<Rightarrow> Some (headerHack h)
                                    | None \<Rightarrow> Some customHeader),
                      gotHeader := True\<rparr>) = Inr (st', d')"
        by (auto simp: soapLoop.simps [of reg d st] split: sum.splits)
      from "1.IH"(1) [OF more g refl hd ngh p refl r]
      have "header st' = (case hdr of Some h \<Rightarrow> Some (headerHack h) | None \<Rightarrow> Some customHeader)"
        by simp
      then have e: "header st' = Some (case hdr of Some h' \<Rightarrow> headerHack h' | None \<Rightarrow> customHeader)"
        by (cases hdr) auto
      from sf1 hd p have "headerElementIn reg d hdr"
        unfolding headerElementIn_def by blast
      with e ngh show ?thesis by blast
    next
      case nhd: False
      show ?thesis
      proof (cases "Local (el_Name el) = ''Body''")
        case bd: True
        with "1.prems" more g nhd obtain el2 d2 op' bdy d3 endel d4 where
          g2: "getNextStartElement d1 = Inr (el2, d2)"
          and o: "EwsOperations reg (Local (el_Name el2)) = Some op'"
          and p: "processSoapElement reg d2 el2 (ewsTypes reg (Request op')) (BodyType op')
                    = Inr (bdy, d3)"
          and e: "getNextElement d3 False = Inr (endel, d4)"
          and ngb: "\<not> gotBody st"
          and r: "soapLoop reg d4 (st\<lparr>op := Some op', msgType := RequestType op',
                                       body := bdy, gotBody := True\<rparr>) = Inr (st', d')"
          by (auto simp: soapLoop.simps [of reg d st] split: sum.splits option.splits if_splits)
        from "1.IH"(2) [OF more g refl nhd bd ngb g2 refl o p refl e refl r]
        have ih: "(gotHeader st \<longrightarrow> header st' = header st)
           \<and> (\<not> gotHeader st \<longrightarrow>
               (\<exists>h. headerElementIn reg d4 h
                  \<and> header st' = Some (case h of Some h' \<Rightarrow> headerHack h' | None \<Rightarrow> customHeader)))"
          by simp
        have "suffix d4 d"
          using sf1' getNextStartElement_suffix [OF g2] processSoapElement_suffix [OF p]
            getNextElement_suffix [OF e]
          by (meson suffix_ConsD suffix_order.trans)
        with ih show ?thesis by (blast intro: headerElementIn_suffix)
      next
        case nbd: False
        with "1.prems" more g nhd have r: "soapLoop reg d1 st = Inr (st', d')"
          by (auto simp: soapLoop.simps [of reg d st])
        from "1.IH"(3) [OF more g refl nhd nbd r] sf1' show ?thesis
          by (blast intro: headerElementIn_suffix)
      qed
    qed
  qed
qed

lemma SOAP2JSON_header:
  assumes "SOAP2JSON reg d = Inr (msg, op')"
  shows "\<exists>h. headerElementIn reg d h
           \<and> m_Header msg = Some (case h of Some h' \<Rightarrow> headerHack h' | None \<Rightarrow> customHeader)"
proof -
  from assms obtain el d1 st d2 where
    g: "getNextStartElement d = Inr (el, d1)"
    and l: "soapLoop reg d1 \<lparr>header = None, body = None, msgType = '''', op = None,
                     gotHeader = False, gotBody = False\<rparr> = Inr (st, d2)"
    and m: "m_Header msg = header st"
    by (auto simp: SOAP2JSON_def split: sum.splits if_splits)
  from soapLoop_header [OF l] obtain h where
    h1: "headerElementIn reg d1 h" and
    h2: "header st = Some (case h of Some h' \<Rightarrow> headerHack h' | None \<Rightarrow> customHeader)"
    by auto
  have "suffix d1 d" by (rule suffix_ConsD [OF getNextStartElement_suffix [OF g]])
  with h1 have "headerElementIn reg d h" by (rule headerElementIn_suffix)
  with h2 m show ?thesis by (intro exI [of _ h]) simp
qed

lemma headerElementIn_tag:
  "headerElementIn reg d h \<Longrightarrow> \<exists>el. TStart el \<in> set d \<and> Local (el_Name el) = ''Header''"
  unfolding headerElementIn_def by (auto simp: suffix_def)

lemma customHeader_members:
  "customHeader = [(''__type'', JString ''JsonRequestHeaders:#Exchange''),
                   (''RequestServerVersion'', JString ''Exchange2013'')]"
  by (simp add: customHeader_def)

text \<open>
  C6, as the code has it. \<^verbatim>\<open>SOAP2JSON\<close> returns a message only after it has translated
  a \<^verbatim>\<open>Header\<close> element of the input: a request without one is answered with an error.
  The header of the message is the synthesized object
  \<^verbatim>\<open>{"__type":"JsonRequestHeaders:#Exchange","RequestServerVersion":"Exchange2013"}\<close> when
  that element translates to nothing (an empty \<^verbatim>\<open>Header\<close> element), and the translated
  object after the header hack otherwise.
\<close>

theorem C6_header_synthesized_for_empty_header_element:
  "(SOAP2JSON reg d = Inr (msg, op') \<longrightarrow>
      (\<exists>h. headerElementIn reg d h
         \<and> m_Header msg = Some (case h of Some h' \<Rightarrow> headerHack h' | None \<Rightarrow> customHeader)))
   \<and> ((\<forall>el. TStart el \<in> set d \<longrightarrow> Local (el_Name el) \<noteq> ''Header'')
        \<longrightarrow> (\<exists>e. SOAP2JSON reg d = Inl e))
   \<and> customHeader = [(''__type'', JString ''JsonRequestHeaders:#Exchange''),
                      (''RequestServerVersion'', JString ''Exchange2013'')]"
proof (intro conjI impI)
  assume "SOAP2JSON reg d = Inr (msg, op')"
  then show "\<exists>h. headerElementIn reg d h
         \<and> m_Header msg = Some (case h of Some h' \<Rightarrow> headerHack h' | None \<Rightarrow> customHeader)"
    by (rule SOAP2JSON_header)
next
  assume no: "\<forall>el. TStart el \<in> set d \<longrightarrow> Local (el_Name el) \<noteq> ''Header''"
  show "\<exists>e. SOAP2JSON reg d = Inl e"
  proof (cases "SOAP2JSON reg d")
    case (Inl e)
    then show ?thesis by simp
  next
    case (Inr r)
    obtain msg' o' where "r = (msg', o')" by (cases r)
    with Inr have "SOAP2JSON reg d = Inr (msg', o')" by simp
    then obtain h where "headerElementIn reg d h" using SOAP2JSON_header by blast
    then obtain el where "TStart el \<in> set d" "Local (el_Name el) = ''Header''"
      using headerElementIn_tag by blast
    with no show ?thesis by blast
  qed
next
  show "customHeader = [(''__type'', JString ''JsonRequestHeaders:#Exchange''),
                      (''RequestServerVersion'', JString ''Exchange2013'')]"
    by (rule customHeader_members)
qed

theorem C6_no_header_element_counterexample:
  "SOAP2JSON exReg
     [tag ''Envelope'', tag ''Body'', tag ''GetFolder'', endTag ''GetFolder'', endTag ''Body'',
      endTag ''Envelope'']
   = Inl WantedStart"
  by code_simp

theorem C6_header_synthesized_for_empty_header_element_witness:
  "SOAP2JSON exReg
     [tag ''Envelope'', tag ''Header'', endTag ''Header'', tag ''Body'', tag ''GetFolder'',
      endTag ''GetFolder'', endTag ''Body'', endTag ''Envelope'']
   = Inr (\<lparr>m_type = ''GetFolderJsonRequest:#Exchange'',
           m_Header = Some [(''__type'', JString ''JsonRequestHeaders:#Exchange''),
                            (''RequestServerVersion'', JString ''Exchange2013'')],
           m_Body = None\<rparr>, Some exOp)
   \<and> headerElementIn exReg
       [tag ''Envelope'', tag ''Header'', endTag ''Header'', tag ''Body'', tag ''GetFolder'',
        endTag ''GetFolder'', endTag ''Body'', endTag ''Envelope''] None
   \<and> (\<exists>e. SOAP2JSON exReg
          [tag ''Envelope'', tag ''Body'', tag ''GetFolder'', endTag ''GetFolder'',
           endTag ''Body'', endTag ''Envelope''] = Inl e)"
proof -
  let ?d = "[tag ''Envelope'', tag ''Header'', endTag ''Header'', tag ''Body'', tag ''GetFolder'',
      endTag ''GetFolder'', endTag ''Body'', endTag ''Envelope'']"
  let ?n = "[tag ''Envelope'', tag ''Body'', tag ''GetFolder'', endTag ''GetFolder'',
           endTag ''Body'', endTag ''Envelope'']"
  let ?msg = "\<lparr>m_type = ''GetFolderJsonRequest:#Exchange'',
           m_Header = Some [(''__type'', JString ''JsonRequestHeaders:#Exchange''),
                            (''RequestServerVersion'', JString ''Exchange2013'')],
           m_Body = None\<rparr>"
  have run: "SOAP2JSON exReg ?d = Inr (?msg, Some exOp)" by code_simp
  have p: "processSoapElement exReg
             [endTag ''Header'', tag ''Body'', tag ''GetFolder'',
              endTag ''GetFolder'', endTag ''Body'', endTag ''Envelope'']
             (StartElement (XmlName '''' ''Header'') []) (Some (EwsSoapRequestHeader exReg))
             (JsonType (EwsSoapRequestHeader exReg))
           = Inr (None, [tag ''Body'', tag ''GetFolder'',
              endTag ''GetFolder'', endTag ''Body'', endTag ''Envelope''])" by code_simp
  have hin: "headerElementIn exReg ?d None"
    unfolding headerElementIn_def
    apply (rule exI [of _ "StartElement (XmlName '''' ''Header'') []"])
    apply (rule exI [of _ "[endTag ''Header'', tag ''Body'', tag ''GetFolder'',
              endTag ''GetFolder'', endTag ''Body'', endTag ''Envelope'']"])
    apply (rule exI [of _ "[tag ''Body'', tag ''GetFolder'',
              endTag ''GetFolder'', endTag ''Body'', endTag ''Envelope'']"])
    apply (intro conjI)
      apply (simp add: tag_def suffix_def)
     apply simp
    apply (rule p)
    done
  have no: "\<forall>el. TStart el \<in> set ?n \<longrightarrow> Local (el_Name el) \<noteq> ''Header''"
    by (auto simp: tag_def endTag_def)
  from C6_header_synthesized_for_empty_header_element
         [of exReg ?n, THEN conjunct2, THEN conjunct1] no
  have err: "\<exists>e. SOAP2JSON exReg ?n = Inl e" by (rule mp)
  from C6_header_synthesized_for_empty_header_element
         [of exReg ?d ?msg "Some exOp", THEN conjunct1] run
  have "\<exists>h. headerElementIn exReg ?d h
         \<and> m_Header ?msg = Some (case h of Some h' \<Rightarrow> headerHack h' | None \<Rightarrow> customHeader)"
    by (rule mp)
  with run hin err show ?thesis by (intro conjI)
qed

lemma versionLoop_append: "versionLoop (xs @ ys) cur = versionLoop ys (versionLoop xs cur)"
  by (induction xs arbitrary: cur) auto

lemma versionLoop_no_Version:
  "''Version'' \<notin> fst ` set v \<Longrightarrow> versionLoop v cur = cur"
  by (induction v arbitrary: cur) auto

lemma versionLoop_last:
  "''Version'' \<notin> fst ` set post \<Longrightarrow>
     versionLoop (pre @ (''Version'', JString ver) # post) cur =
       JString (if prefix ''Exchange2007'' ver \<or> prefix ''Exchange2010'' ver
                then ''Exchange2013'' else ver)"
  by (simp add: versionLoop_append versionLoop_no_Version)

lemma headerHack_length: "length (headerHack h) = length h"
  by (induction h) auto

lemma headerHack_nth:
  "i < length h \<Longrightarrow>
     headerHack h ! i =
       (if fst (h ! i) = ''RequestServerVersion'' then
          (case snd (h ! i) of
             JObject v \<Rightarrow> (fst (h ! i), versionLoop v (snd (h ! i)))
           | _ \<Rightarrow> h ! i)
        else h ! i)"
proof (induction h arbitrary: i)
  case Nil
  then show ?case by simp
next
  case (Cons kv h)
  then show ?case by (cases i) (auto split: json.splits)
qed

text \<open>
  C7. The header of the message that \<^verbatim>\<open>SOAP2JSON\<close> returns comes from a \<^verbatim>\<open>Header\<close>
  element of the input; where the translated header holds, under
  \<^verbatim>\<open>RequestServerVersion\<close>, an object whose \<^verbatim>\<open>Version\<close> member is the string \<open>ver\<close>,
  the message holds at the same place \<^verbatim>\<open>"Exchange2013"\<close> when \<open>ver\<close> starts with
  \<^verbatim>\<open>Exchange2007\<close> or \<^verbatim>\<open>Exchange2010\<close>, and \<open>ver\<close> itself otherwise.
\<close>

theorem C7_request_server_version_upgraded:
  "SOAP2JSON reg d = Inr (msg, op') \<longrightarrow>
     (\<exists>h. headerElementIn reg d h
        \<and> (\<forall>h' i pre ver post.
              h = Some h' \<and> i < length h'
              \<and> h' ! i = (''RequestServerVersion'', JObject (pre @ (''Version'', JString ver) # post))
              \<and> ''Version'' \<notin> fst ` set post \<longrightarrow>
              (\<exists>hdr. m_Header msg = Some hdr \<and> length hdr = length h'
                 \<and> hdr ! i =
                     (''RequestServerVersion'',
                      JString (if prefix ''Exchange2007'' ver \<or> prefix ''Exchange2010'' ver
                               then ''Exchange2013'' else ver)))))"
proof
  assume "SOAP2JSON reg d = Inr (msg, op')"
  then obtain h where hin: "headerElementIn reg d h"
    and m: "m_Header msg = Some (case h of Some h' \<Rightarrow> headerHack h' | None \<Rightarrow> customHeader)"
    using SOAP2JSON_header by blast
  have "\<forall>h' i pre ver post.
              h = Some h' \<and> i < length h'
              \<and> h' ! i = (''RequestServerVersion'', JObject (pre @ (''Version'', JString ver) # post))
              \<and> ''Version'' \<notin> fst ` set post \<longrightarrow>
              (\<exists>hdr. m_Header msg = Some hdr \<and> length hdr = length h'
                 \<and> hdr ! i =
                     (''RequestServerVersion'',
                      JString (if prefix ''Exchange2007'' ver \<or> prefix ''Exchange2010'' ver
                               then ''Exchange2013'' else ver)))"
  proof (intro allI impI, elim conjE)
    fix h' i pre ver post
    assume h: "h = Some h'" and i: "i < length h'"
      and e: "h' ! i = (''RequestServerVersion'', JObject (pre @ (''Version'', JString ver) # post))"
      and n: "''Version'' \<notin> fst ` set post"
    from m h have m': "m_Header msg = Some (headerHack h')" by simp
    from headerHack_nth [OF i] e
    have "headerHack h' ! i =
            (''RequestServerVersion'',
             versionLoop (pre @ (''Version'', JString ver) # post)
               (JObject (pre @ (''Version'', JString ver) # post)))"
      by simp
    with versionLoop_last [OF n]
    have "headerHack h' ! i =
            (''RequestServerVersion'',
             JString (if prefix ''Exchange2007'' ver \<or> prefix ''Exchange2010'' ver
                      then ''Exchange2013'' else ver))"
      by simp
    with m' headerHack_length [of h']
    show "\<exists>hdr. m_Header msg = Some hdr \<and> length hdr = length h'
                 \<and> hdr ! i =
                     (''RequestServerVersion'',
                      JString (if prefix ''Exchange2007'' ver \<or> prefix ''Exchange2010'' ver
                               then ''Exchange2013'' else ver))"
      by (intro exI [of _ "headerHack h'"]) simp
  qed
  with hin show "\<exists>h. headerElementIn reg d h
        \<and> (\<forall>h' i pre ver post.
              h = Some h' \<and> i < length h'
              \<and> h' ! i = (''RequestServerVersion'', JObject (pre @ (''Version'', JString ver) # post))
              \<and> ''Version'' \<notin> fst ` set post \<longrightarrow>
              (\<exists>hdr. m_Header msg = Some hdr \<and> length hdr = length h'
                 \<and> hdr ! i =
                     (''RequestServerVersion'',
                      JString (if prefix ''Exchange2007'' ver \<or> prefix ''Exchange2010'' ver
                               then ''Exchange2013'' else ver))))"
    by (intro exI [of _ h] conjI)
qed

theorem C7_request_server_version_upgraded_witness:
  "SOAP2JSON exReg
     [tag ''Envelope'', tag ''Header'',
      TStart (StartElement (XmlName '''' ''RequestServerVersion'')
                [Attr (XmlName '''' ''Version'') ''Exchange2010_SP2'']),
      endTag ''RequestServerVersion'', endTag ''Header'', tag ''Body'', tag ''GetFolder'',
      endTag ''GetFolder'', endTag ''Body'', endTag ''Envelope'']
   = Inr (\<lparr>m_type = ''GetFolderJsonRequest:#Exchange'',
           m_Header = Some [(''__type'', JString ''JsonRequestHeaders:#Exchange''),
                            (''RequestServerVersion'', JString ''Exchange2013'')],
           m_Body = None\<rparr>, Some exOp)
   \<and> headerElementIn exReg
       [tag ''Envelope'', tag ''Header'',
        TStart (StartElement (XmlName '''' ''RequestServerVersion'')
                  [Attr (XmlName '''' ''Version'') ''Exchange2010_SP2'']),
        endTag ''RequestServerVersion'', endTag ''Header'', tag ''Body'', tag ''GetFolder'',
        endTag ''GetFolder'', endTag ''Body'', endTag ''Envelope'']
       (Some [(''__type'', JString ''JsonRequestHeaders:#Exchange''),
              (''RequestServerVersion'', JObject [(''Version'', JString ''Exchange2010_SP2'')])])
   \<and> SOAP2JSON exReg
     [tag ''Envelope'', tag ''Header'',
      TStart (StartElement (XmlName '''' ''RequestServerVersion'')
                [Attr (XmlName '''' ''Version'') ''Exchange2016'']),
      endTag ''RequestServerVersion'', endTag ''Header'', tag ''Body'', tag ''GetFolder'',
      endTag ''GetFolder'', endTag ''Body'', endTag ''Envelope'']
   = Inr (\<lparr>m_type = ''GetFolderJsonRequest:#Exchange'',
           m_Header = Some [(''__type'', JString ''JsonRequestHeaders:#Exchange''),
                            (''RequestServerVersion'', JString ''Exchange2016'')],
           m_Body = None\<rparr>, Some exOp)"
proof -
  let ?rest = "[endTag ''Header'', tag ''Body'', tag ''GetFolder'',
      endTag ''GetFolder'', endTag ''Body'', endTag ''Envelope'']"
  let ?inner = "TStart (StartElement (XmlName '''' ''RequestServerVersion'')
                [Attr (XmlName '''' ''Version'') ''Exchange2010_SP2''])
                # endTag ''RequestServerVersion'' # ?rest"
  let ?d = "tag ''Envelope'' # tag ''Header'' # ?inner"
  let ?msg = "\<lparr>m_type = ''GetFolderJsonRequest:#Exchange'',
           m_Header = Some [(''__type'', JString ''JsonRequestHeaders:#Exchange''),
                            (''RequestServerVersion'', JString ''Exchange2013'')],
           m_Body = None\<rparr>"
  let ?h = "[(''__type'', JString ''JsonRequestHeaders:#Exchange''),
              (''RequestServerVersion'', JObject [(''Version'', JString ''Exchange2010_SP2'')])]"
  have run: "SOAP2JSON exReg ?d = Inr (?msg, Some exOp)" by code_simp
  have run16: "SOAP2JSON exReg
     [tag ''Envelope'', tag ''Header'',
      TStart (StartElement (XmlName '''' ''RequestServerVersion'')
                [Attr (XmlName '''' ''Version'') ''Exchange2016'']),
      endTag ''RequestServerVersion'', endTag ''Header'', tag ''Body'', tag ''GetFolder'',
      endTag ''GetFolder'', endTag ''Body'', endTag ''Envelope'']
   = Inr (\<lparr>m_type = ''GetFolderJsonRequest:#Exchange'',
           m_Header = Some [(''__type'', JString ''JsonRequestHeaders:#Exchange''),
                            (''RequestServerVersion'', JString ''Exchange2016'')],
           m_Body = None\<rparr>, Some exOp)" by code_simp
  have p: "processSoapElement exReg ?inner
             (StartElement (XmlName '''' ''Header'') []) (Some (EwsSoapRequestHeader exReg))
             (JsonType (EwsSoapRequestHeader exReg))
           = Inr (Some ?h, [tag ''Body'', tag ''GetFolder'',
              endTag ''GetFolder'', endTag ''Body'', endTag ''Envelope''])" by code_simp
  have hin: "headerElementIn exReg ?d (Some ?h)"
    unfolding headerElementIn_def
    apply (rule exI [of _ "StartElement (XmlName '''' ''Header'') []"])
    apply (rule exI [of _ ?inner])
    apply (rule exI [of _ "[tag ''Body'', tag ''GetFolder'',
              endTag ''GetFolder'', endTag ''Body'', endTag ''Envelope'']"])
    apply (intro conjI)
      apply (simp add: tag_def suffix_def)
     apply simp
    apply (rule p)
    done
  from C7_request_server_version_upgraded [of exReg ?d ?msg "Some exOp"] run
  have "\<exists>h. headerElementIn exReg ?d h
        \<and> (\<forall>h' i pre ver post.
              h = Some h' \<and> i < length h'
              \<and> h' ! i = (''RequestServerVersion'', JObject (pre @ (''Version'', JString ver) # post))
              \<and> ''Version'' \<notin> fst ` set post \<longrightarrow>
              (\<exists>hdr. m_Header ?msg = Some hdr \<and> length hdr = length h'
                 \<and> hdr ! i =
                     (''RequestServerVersion'',
                      JString (if prefix ''Exchange2007'' ver \<or> prefix ''Exchange2010'' ver
                               then ''Exchange2013'' else ver))))"
    by (rule mp)
  with run hin run16 show ?thesis by (intro conjI)
qed

subsection \<open>Repeated \<^verbatim>\<open>Header\<close> and \<^verbatim>\<open>Body\<close> elements\<close>

lemma closeElement_deeper:
  "closeElement k d = Some d1 \<Longrightarrow> closeElement (k + Suc n) d = closeElement n d1"
proof (induction k d arbitrary: n rule: closeElement.induct)
  case (3 k nm d)
  then show ?case by (cases k) auto
qed auto

lemma childNames_deeper:
  "closeElement k d = Some d1 \<Longrightarrow> childNames (k + Suc n) d = childNames n d1"
proof (induction k d arbitrary: n rule: closeElement.induct)
  case (3 k nm d)
  then show ?case by (cases k) auto
qed auto

lemma processElement_close_aux:
  "\<forall>v d'. processElement reg d el typ' = Inr (v, d') \<longrightarrow> closeElement 0 d = Some d'"
  "\<forall>v d'. elementLoop reg d el typ st = Inr (v, d') \<longrightarrow> closeElement 0 d = Some d'"
proof (induct reg d el typ' and reg d el "typ" st rule: processElement_elementLoop.induct)
  case (4 reg tokel d el ty st)
  show ?case
  proof (intro allI impI)
    fix v d'
    assume run: "elementLoop reg (TStart tokel # d) el ty st = Inr (v, d')"
    from run obtain st1 nextElem newItem d1 st2 where
      s1: "(if ret st = RNil then initRetObject reg el ty else Inr st) = Inr st1"
      and ne: "map_of (TypeByElementName ty) (Local (el_Name tokel)) = Some nextElem"
      and pe: "processElement reg d tokel (ewsTypes reg (xe_Type nextElem)) = Inr (newItem, d1)"
      and ic: "installChild ty nextElem (ewsTypes reg (xe_Type nextElem)) newItem st1 = Inr st2"
      and lp: "elementLoop reg d1 el ty st2 = Inr (v, d')"
      by (auto split: sum.splits option.splits prod.splits)
    from 4(1) [OF s1 ne] pe have c1: "closeElement 0 d = Some d1" by blast
    from 4(2) [OF s1 ne pe refl ic] lp have c2: "closeElement 0 d1 = Some d'" by blast
    from closeElement_deeper [OF c1, of 0] c2
    show "closeElement 0 (TStart tokel # d) = Some d'" by simp
  qed
next
  case (6 reg tokel d el ty st)
  then show ?case
    by (simp split: if_splits sum.splits)
qed (auto split: if_splits sum.splits)

lemma processElement_close:
  "processElement reg d el typ' = Inr (v, d') \<Longrightarrow> closeElement 0 d = Some d'"
  using processElement_close_aux(1) [of reg d el typ', rule_format, of v d'] by simp

lemma processSoapElement_close:
  assumes "processSoapElement reg d el typ' jt = Inr (r, d')"
  shows "closeElement 0 d = Some d'"
proof (cases "processElement reg d el typ'")
  case (Inl e)
  with assms show ?thesis by (simp add: processSoapElement_def)
next
  case (Inr p)
  obtain v d1 where p: "p = (v, d1)" by (cases p)
  from Inr p have "closeElement 0 d = Some d1" by (auto dest: processElement_close)
  moreover from assms Inr p have "d' = d1"
    by (auto simp: processSoapElement_def split: if_splits json.splits list.splits)
  ultimately show ?thesis by simp
qed

lemma getNextElement_start:
  "getNextElement d True = Inr (t, d1) \<Longrightarrow>
     \<exists>el. t = TStart el \<and> closeElement n d = closeElement (Suc n) d1
        \<and> childNames n d = (if n = 0 then [Local (el_Name el)] else []) @ childNames (Suc n) d1"
  by (induction d "True" rule: getNextElement.induct) auto

lemma getNextStartElement_start:
  "getNextStartElement d = Inr (el, d1) \<Longrightarrow>
     closeElement n d = closeElement (Suc n) d1
     \<and> childNames n d = (if n = 0 then [Local (el_Name el)] else []) @ childNames (Suc n) d1"
  using getNextElement_start [of d _ d1 n]
  by (auto simp: getNextStartElement_def split: sum.splits Token.splits)

lemma getNextElement_end:
  "getNextElement d False = Inr (t, d1) \<Longrightarrow> closeElement 0 d = Some d1"
  by (induction d "False" rule: getNextElement.induct) auto

lemma getNextElement_children:
  "childNames 0 d \<noteq> [] \<Longrightarrow> getNextElement d False = Inl WantedEnd"
  by (induction d "False" rule: getNextElement.induct) auto

lemma dupc_nonempty: "dupc st ns \<Longrightarrow> ns \<noteq> []"
  by (auto simp: dupc_def)

lemma dupc_Header:
  "dupc st (''Header'' # ns) \<Longrightarrow> \<not> gotHeader st \<Longrightarrow>
     dupc (st\<lparr>header := h, gotHeader := True\<rparr>) ns"
  by (auto simp: dupc_def)

lemma dupc_Body:
  "dupc st (''Body'' # ns) \<Longrightarrow> \<not> gotBody st \<Longrightarrow>
     dupc (st\<lparr>op := o', msgType := m, body := b, gotBody := True\<rparr>) ns"
  by (auto simp: dupc_def)

lemma soapLoop_children:
  "soapLoop reg d st = Inr (st', d') \<Longrightarrow> set (childNames 0 d) \<subseteq> {''Header'', ''Body''}
     \<Longrightarrow> dupc st (childNames 0 d) \<Longrightarrow> childNames 0 d' \<noteq> []"
proof (induction reg d st arbitrary: st' d' rule: soapLoop.induct)
  case (1 reg d st)
  show ?case
  proof (cases "\<not> gotHeader st \<or> \<not> gotBody st")
    case False
    with "1.prems"(1) have "d' = d" by (simp add: soapLoop.simps)
    with "1.prems"(3) show ?thesis by (simp add: dupc_nonempty)
  next
    case more: True
    with "1.prems"(1) obtain el d1 where g: "getNextStartElement d = Inr (el, d1)"
      by (cases "getNextStartElement d") (auto simp: soapLoop.simps [of reg d st])
    from getNextStartElement_start [OF g, of 0]
    have c0: "closeElement 0 d = closeElement 1 d1"
      and n0: "childNames 0 d = Local (el_Name el) # childNames 1 d1" by simp_all
    show ?thesis
    proof (cases "Local (el_Name el) = ''Header''")
      case hd: True
      with "1.prems"(1) more g have ngh: "\<not> gotHeader st"
        by (auto simp: soapLoop.simps [of reg d st])
      with "1.prems"(1) more g hd obtain hdr d2 where
        p: "processSoapElement reg d1 el (Some (EwsSoapRequestHeader reg))
              (JsonType (EwsSoapRequestHeader reg)) = Inr (hdr, d2)"
        and r: "soapLoop reg d2
                  (st\<lparr>header := (case hdr of Some h \<Rightarrow> Some (headerHack h)
                                    | None \<Rightarrow> Some customHeader),
                      gotHeader := True\<rparr>) = Inr (st', d')"
        by (auto simp: soapLoop.simps [of reg d st] split: sum.splits)
      from processSoapElement_close [OF p] have "closeElement 0 d1 = Some d2" .
      from childNames_deeper [OF this, of 0] have "childNames 1 d1 = childNames 0 d2" by simp
      with n0 hd have n: "childNames 0 d = ''Header'' # childNames 0 d2" by simp
      from "1.prems"(2) n have sub: "set (childNames 0 d2) \<subseteq> {''Header'', ''Body''}" by simp
      from "1.prems"(3) n ngh have
        "dupc (st\<lparr>header := (case hdr of Some h \<Rightarrow> Some (headerHack h)
                                    | None \<Rightarrow> Some customHeader),
                      gotHeader := True\<rparr>) (childNames 0 d2)"
        by (simp add: dupc_Header)
      with "1.IH"(1) [OF more g refl hd ngh p refl r sub] show ?thesis .
    next
      case nhd: False
      show ?thesis
      proof (cases "Local (el_Name el) = ''Body''")
        case bd: True
        with "1.prems"(1) more g nhd obtain el2 d2 op' bdy d3 endel d4 where
          g2: "getNextStartElement d1 = Inr (el2, d2)"
          and o: "EwsOperations reg (Local (el_Name el2)) = Some op'"
          and p: "processSoapElement reg d2 el2 (ewsTypes reg (Request op')) (BodyType op')
                    = Inr (bdy, d3)"
          and e: "getNextElement d3 False = Inr (endel, d4)"
          and ngb: "\<not> gotBody st"
          and r: "soapLoop reg d4 (st\<lparr>op := Some op', msgType := RequestType op',
                                       body := bdy, gotBody := True\<rparr>) = Inr (st', d')"
          by (auto simp: soapLoop.simps [of reg d st] split: sum.splits option.splits if_splits)
        from getNextStartElement_start [OF g2, of 0]
        have a1: "closeElement 0 d1 = closeElement 1 d2" by simp
        from processSoapElement_close [OF p] have "closeElement 0 d2 = Some d3" .
        from closeElement_deeper [OF this, of 0] have a2: "closeElement 1 d2 = closeElement 0 d3"
          by simp
        from getNextElement_end [OF e] a1 a2 have "closeElement 0 d1 = Some d4" by simp
        from childNames_deeper [OF this, of 0] have "childNames 1 d1 = childNames 0 d4" by simp
        with n0 bd have n: "childNames 0 d = ''Body'' # childNames 0 d4" by simp
        from "1.prems"(2) n have sub: "set (childNames 0 d4) \<subseteq> {''Header'', ''Body''}" by simp
        from "1.prems"(3) n ngb have
          "dupc (st\<lparr>op := Some op', msgType := RequestType op',
                                       body := bdy, gotBody := True\<rparr>) (childNames 0 d4)"
          by (simp add: dupc_Body)
        with "1.IH"(2) [OF more g refl nhd bd ngb g2 refl o p refl e refl r sub]
        show ?thesis .
      next
        case nbd: False
        with nhd n0 "1.prems"(2) show ?thesis by simp
      qed
    qed
  qed
qed

lemma distinct_count_list: "distinct xs \<Longrightarrow> count_list xs x \<le> 1"
  by (induction xs) (auto simp: count_list_0_iff)

lemma soapLoop_multiple:
  "getNextStartElement d = Inr (el, d1) \<Longrightarrow> gotHeader st \<Longrightarrow> \<not> gotBody st \<Longrightarrow>
     Local (el_Name el) = ''Header'' \<Longrightarrow> soapLoop reg d st = Inl MultipleHeaders"
  "getNextStartElement d = Inr (el, d1) \<Longrightarrow> gotBody st \<Longrightarrow> \<not> gotHeader st \<Longrightarrow>
     Local (el_Name el) = ''Body'' \<Longrightarrow> soapLoop reg d st = Inl MultipleBodies"
  by (simp_all add: soapLoop.simps [of reg d st])

text \<open>
  C10, as the code has it. When the elements directly under \<^verbatim>\<open>Envelope\<close> are
  \<^verbatim>\<open>Header\<close> and \<^verbatim>\<open>Body\<close> elements only, and there is more than one \<^verbatim>\<open>Header\<close> or
  more than one \<^verbatim>\<open>Body\<close> among them, \<^verbatim>\<open>SOAP2JSON\<close> returns an error. The error is
  \<^verbatim>\<open>multiple SOAP headers found\<close> (\<^verbatim>\<open>multiple SOAP bodies found\<close>) when the loop meets
  the start tag \<^verbatim>\<open>Header\<close> (\<^verbatim>\<open>Body\<close>) with a header (body) already translated and the
  body (header) still missing; once both are translated the loop is over, and what follows
  is refused by \<^verbatim>\<open>getNextElement\<close> as an unexpected element.
\<close>

theorem C10_repeated_header_or_body_is_an_error:
  "(set (envelopeChildren d) \<subseteq> {''Header'', ''Body''}
      \<and> (1 < count_list (envelopeChildren d) ''Header''
           \<or> 1 < count_list (envelopeChildren d) ''Body'')
      \<longrightarrow> (\<exists>e. SOAP2JSON reg d = Inl e))
   \<and> (getNextStartElement d = Inr (el, d1) \<and> Local (el_Name el) = ''Header''
        \<and> gotHeader st \<and> \<not> gotBody st \<longrightarrow> soapLoop reg d st = Inl MultipleHeaders)
   \<and> (getNextStartElement d = Inr (el, d1) \<and> Local (el_Name el) = ''Body''
        \<and> gotBody st \<and> \<not> gotHeader st \<longrightarrow> soapLoop reg d st = Inl MultipleBodies)
   \<and> (gotHeader st \<and> gotBody st \<and> getNextStartElement d = Inr (el, d1) \<longrightarrow>
        soapLoop reg d st = Inr (st, d) \<and> getNextElement d False = Inl WantedEnd)"
proof (intro conjI impI)
  assume a: "set (envelopeChildren d) \<subseteq> {''Header'', ''Body''}
      \<and> (1 < count_list (envelopeChildren d) ''Header''
           \<or> 1 < count_list (envelopeChildren d) ''Body'')"
  show "\<exists>e. SOAP2JSON reg d = Inl e"
  proof (cases "getNextStartElement d")
    case (Inl e)
    then show ?thesis by (simp add: SOAP2JSON_def)
  next
    case (Inr r)
    obtain el0 d0 where r: "r = (el0, d0)" by (cases r)
    with Inr have ec: "envelopeChildren d = childNames 0 d0" by (simp add: envelopeChildren_def)
    let ?init = "\<lparr>header = None, body = None, msgType = '''', op = None,
                     gotHeader = False, gotBody = False\<rparr>"
    from a ec have sub: "set (childNames 0 d0) \<subseteq> {''Header'', ''Body''}" by simp
    from a ec have "\<not> distinct (childNames 0 d0)"
      using distinct_count_list [of "childNames 0 d0" "''Header''"]
        distinct_count_list [of "childNames 0 d0" "''Body''"] by auto
    then have dup: "dupc ?init (childNames 0 d0)" by (simp add: dupc_def)
    show ?thesis
    proof (cases "soapLoop reg d0 ?init")
      case (Inl e)
      with Inr r show ?thesis by (simp add: SOAP2JSON_def)
    next
      case lp: (Inr q)
      obtain st' d' where q: "q = (st', d')" by (cases q)
      from soapLoop_children [OF lp [unfolded q] sub dup]
      have "getNextElement d' False = Inl WantedEnd" by (rule getNextElement_children)
      with Inr r lp q show ?thesis by (simp add: SOAP2JSON_def)
    qed
  qed
next
  assume "getNextStartElement d = Inr (el, d1) \<and> Local (el_Name el) = ''Header''
        \<and> gotHeader st \<and> \<not> gotBody st"
  then show "soapLoop reg d st = Inl MultipleHeaders"
    by (simp add: soapLoop_multiple(1))
next
  assume "getNextStartElement d = Inr (el, d1) \<and> Local (el_Name el) = ''Body''
        \<and> gotBody st \<and> \<not> gotHeader st"
  then show "soapLoop reg d st = Inl MultipleBodies"
    by (simp add: soapLoop_multiple(2))
next
  assume "gotHeader st \<and> gotBody st \<and> getNextStartElement d = Inr (el, d1)"
  then show "soapLoop reg d st = Inr (st, d)" by (simp add: soapLoop.simps [of reg d st])
next
  assume a: "gotHeader st \<and> gotBody st \<and> getNextStartElement d = Inr (el, d1)"
  then have "childNames 0 d \<noteq> []" using getNextStartElement_start [of d el d1 0] by simp
  then show "getNextElement d False = Inl WantedEnd" by (rule getNextElement_children)
qed

theorem C10_header_under_foreign_element_counterexample:
  "envelopeChildren
     [tag ''Envelope'', tag ''Header'', endTag ''Header'', tag ''Foo'', tag ''Body'',
      tag ''GetFolder'', endTag ''GetFolder'', endTag ''Body'', endTag ''Foo'',
      tag ''Header'', endTag ''Header'', endTag ''Envelope'']
     = [''Header'', ''Foo'', ''Header'']
   \<and> SOAP2JSON exReg
     [tag ''Envelope'', tag ''Header'', endTag ''Header'', tag ''Foo'', tag ''Body'',
      tag ''GetFolder'', endTag ''GetFolder'', endTag ''Body'', endTag ''Foo'',
      tag ''Header'', endTag ''Header'', endTag ''Envelope'']
     = Inr (\<lparr>m_type = ''GetFolderJsonRequest:#Exchange'',
             m_Header = Some [(''__type'', JString ''JsonRequestHeaders:#Exchange''),
                              (''RequestServerVersion'', JString ''Exchange2013'')],
             m_Body = None\<rparr>, Some exOp)
   \<and> SOAP2JSON exReg
     [tag ''Envelope'', tag ''Header'', endTag ''Header'', tag ''Body'',
      tag ''GetFolder'', endTag ''GetFolder'', endTag ''Body'',
      tag ''Header'', endTag ''Header'', endTag ''Envelope'']
     = Inl WantedEnd"
  by code_simp

theorem C10_repeated_header_or_body_is_an_error_witness:
  "envelopeChildren
     [tag ''Envelope'', tag ''Header'', endTag ''Header'', tag ''Header'', endTag ''Header'',
      tag ''Body'', tag ''GetFolder'', endTag ''GetFolder'', endTag ''Body'', endTag ''Envelope'']
     = [''Header'', ''Header'', ''Body'']
   \<and> SOAP2JSON exReg
     [tag ''Envelope'', tag ''Header'', endTag ''Header'', tag ''Header'', endTag ''Header'',
      tag ''Body'', tag ''GetFolder'', endTag ''GetFolder'', endTag ''Body'', endTag ''Envelope'']
     = Inl MultipleHeaders
   \<and> (\<exists>e. SOAP2JSON exReg
     [tag ''Envelope'', tag ''Header'', endTag ''Header'', tag ''Header'', endTag ''Header'',
      tag ''Body'', tag ''GetFolder'', endTag ''GetFolder'', endTag ''Body'', endTag ''Envelope'']
     = Inl e)
   \<and> SOAP2JSON exReg
     [tag ''Envelope'', tag ''Body'', tag ''GetFolder'', endTag ''GetFolder'', endTag ''Body'',
      tag ''Body'', tag ''GetFolder'', endTag ''GetFolder'', endTag ''Body'',
      tag ''Header'', endTag ''Header'', endTag ''Envelope'']
     = Inl MultipleBodies"
proof -
  let ?d = "[tag ''Envelope'', tag ''Header'', endTag ''Header'', tag ''Header'', endTag ''Header'',
      tag ''Body'', tag ''GetFolder'', endTag ''GetFolder'', endTag ''Body'', endTag ''Envelope'']"
  have c: "envelopeChildren ?d = [''Header'', ''Header'', ''Body'']" by code_simp
  have r1: "SOAP2JSON exReg ?d = Inl MultipleHeaders" by code_simp
  have r2: "SOAP2JSON exReg
     [tag ''Envelope'', tag ''Body'', tag ''GetFolder'', endTag ''GetFolder'', endTag ''Body'',
      tag ''Body'', tag ''GetFolder'', endTag ''GetFolder'', endTag ''Body'',
      tag ''Header'', endTag ''Header'', endTag ''Envelope'']
     = Inl MultipleBodies" by code_simp
  have h: "set (envelopeChildren ?d) \<subseteq> {''Header'', ''Body''}
      \<and> (1 < count_list (envelopeChildren ?d) ''Header''
           \<or> 1 < count_list (envelopeChildren ?d) ''Body'')"
    unfolding c by simp
  from C10_repeated_header_or_body_is_an_error [of ?d exReg, THEN conjunct1] h
  have "\<exists>e. SOAP2JSON exReg ?d = Inl e" by (rule mp)
  with c r1 r2 show ?thesis by (intro conjI)
qed

subsection \<open>Enumerations on the way to XML\<close>

lemma testBits_selected:
  "index + length vs \<le> 32 \<Longrightarrow>
     testBits bits vs index = Inr [vs ! i. i \<leftarrow> [0..<length vs], bit bits (index + i)]"
proof (induction vs arbitrary: index)
  case Nil
  then show ?case by simp
next
  case (Cons v vs)
  from Cons.prems have i: "index < 32" and r: "Suc index + length vs \<le> 32" by simp_all
  have "[0..<Suc (length vs)] = 0 # [Suc 0..<Suc (length vs)]"
    by (rule upt_conv_Cons) simp
  then have u: "[0..<length (v # vs)] = 0 # map Suc [0..<length vs]"
    by (simp only: map_Suc_upt length_Cons)
  show ?case
    unfolding u using i Cons.IH [OF r] by (simp add: Test_def comp_def cong: if_cong)
qed

lemma selected_word_int:
  assumes "length vs \<le> 32"
  shows "[vs ! i. i \<leftarrow> [0..<length vs], bit (word_of_int num :: 32 word) (0 + i)]
         = [vs ! i. i \<leftarrow> [0..<length vs], bit num i]"
proof -
  have "\<And>i. i \<in> set [0..<length vs] \<Longrightarrow>
          (if bit (word_of_int num :: 32 word) (0 + i) then [vs ! i] else [])
          = (if bit num i then [vs ! i] else [])"
    using assms by (auto simp: bit_word_of_int_iff)
  then have "map (\<lambda>i. if bit (word_of_int num :: 32 word) (0 + i) then [vs ! i] else [])
                 [0..<length vs]
             = map (\<lambda>i. if bit num i then [vs ! i] else []) [0..<length vs]"
    by (intro map_cong refl)
  then show ?thesis by (rule arg_cong [of _ _ concat])
qed

text \<open>
  C3. For a declared child whose single type is a simple list of an enum with at most 32
  labels, and a JSON number that \<^verbatim>\<open>strconv.Atoi\<close> reads as the integer \<open>num\<close>, the loop
  over the children writes one element (start tag, character data, end tag) whose
  character data is the labels at the indices whose bit is set in \<open>num\<close>, in ascending
  order of the index, joined by single spaces, removes the key and goes on with the next
  child. The labels \<^verbatim>\<open>["None","A","B","C"]\<close> with the value 6 give \<^verbatim>\<open>"A B"\<close>.
\<close>

theorem C3_enum_list_from_bits:
  "je_SingleType je = Some st \<and> ewsTypes reg (jt_Type st) = Some lt
   \<and> IsSimple lt \<and> SimpleType lt = T_LIST \<and> ListItemType lt = Some itn
   \<and> ewsTypes reg itn = Some it \<and> IsSimple it \<and> SimpleType it = T_ENUM
   \<and> length (EnumValues it) \<le> 32 \<and> jt_XmlTag st \<noteq> ''''
   \<and> map_of element (je_JsonName je) = Some (JNumber numStr) \<and> Atoi numStr = Some num
   \<longrightarrow>
   childrenLoop reg enc element (je # jes) =
     childrenLoop reg
       (enc\<lparr>enc_out := enc_out enc @
          [TStart (StartElement (XmlName '''' (jt_XmlTag st)) []),
           TCharData (Join [EnumValues it ! i. i \<leftarrow> [0..<length (EnumValues it)], bit num i] '' ''),
           TEnd (XmlName '''' (jt_XmlTag st))]\<rparr>)
       (delete (je_JsonName je) element) jes"
proof
  assume a: "je_SingleType je = Some st \<and> ewsTypes reg (jt_Type st) = Some lt
   \<and> IsSimple lt \<and> SimpleType lt = T_LIST \<and> ListItemType lt = Some itn
   \<and> ewsTypes reg itn = Some it \<and> IsSimple it \<and> SimpleType it = T_ENUM
   \<and> length (EnumValues it) \<le> 32 \<and> jt_XmlTag st \<noteq> ''''
   \<and> map_of element (je_JsonName je) = Some (JNumber numStr) \<and> Atoi numStr = Some num"
  let ?names = "[EnumValues it ! i. i \<leftarrow> [0..<length (EnumValues it)], bit num i]"
  let ?start = "TStart (StartElement (XmlName '''' (jt_XmlTag st)) [])"
  from a have e: "enumListType reg je = Inr (Some (st, it))"
    by (simp add: enumListType_def)
  from a have "0 + length (EnumValues it) \<le> 32" by simp
  from testBits_selected [OF this, of "word_of_int num"] a
  have t: "testBits (word_of_int num) (EnumValues it) 0 = Inr ?names"
    using selected_word_int [of "EnumValues it" num] by simp
  from a have tg: "jt_XmlTag st \<noteq> ''''" by simp
  have "emitEnumList enc (JNumber numStr) st it (je_JsonName je) =
     Inr (enc\<lparr>enc_out := enc_out enc @
          [?start, TCharData (Join ?names '' ''), TEnd (XmlName '''' (jt_XmlTag st))]\<rparr>)"
    using a t by (simp add: emitEnumList_def EmitStart_def EmitEnd_def)
  with a e show "childrenLoop reg enc element (je # jes) =
     childrenLoop reg
       (enc\<lparr>enc_out := enc_out enc @
          [?start, TCharData (Join ?names '' ''), TEnd (XmlName '''' (jt_XmlTag st))]\<rparr>)
       (delete (je_JsonName je) element) jes"
    by simp
qed

theorem C3_enum_list_from_bits_witness:
  "childrenLoop exReg enc0 [(''Labels'', JNumber ''6'')] [exLabelsElement]
     = Inr (\<lparr>enc_out = [tag ''t:Labels'', TCharData ''A B'', endTag ''t:Labels''],
             enc_tags = []\<rparr>, [])
   \<and> EnumValues exLabel = [''None'', ''A'', ''B'', ''C''] \<and> Atoi ''6'' = Some 6
   \<and> Join [EnumValues exLabel ! i. i \<leftarrow> [0..<length (EnumValues exLabel)], bit (6 :: int) i] '' ''
       = ''A B''"
proof -
  let ?st = "\<lparr>jt_Type = ''LabelListType'', jt_XmlTag = ''t:Labels''\<rparr>"
  have h: "je_SingleType exLabelsElement = Some ?st
   \<and> ewsTypes exReg (jt_Type ?st) = Some exLabelList
   \<and> IsSimple exLabelList \<and> SimpleType exLabelList = T_LIST
   \<and> ListItemType exLabelList = Some ''LabelType''
   \<and> ewsTypes exReg ''LabelType'' = Some exLabel \<and> IsSimple exLabel \<and> SimpleType exLabel = T_ENUM
   \<and> length (EnumValues exLabel) \<le> 32
   \<and> jt_XmlTag ?st \<noteq> ''''
   \<and> map_of [(''Labels'', JNumber ''6'')] (je_JsonName exLabelsElement) = Some (JNumber ''6'')
   \<and> Atoi ''6'' = Some 6"
    by code_simp
  have v: "EnumValues exLabel = [''None'', ''A'', ''B'', ''C'']" by code_simp
  have b: "[EnumValues exLabel ! i. i \<leftarrow> [0..<length (EnumValues exLabel)], bit (6 :: int) i]
             = [''A'', ''B'']"
    unfolding v by (simp add: upt_conv_Cons bit_numeral_rec)
  from C3_enum_list_from_bits [of exLabelsElement ?st exReg exLabelList "''LabelType''" exLabel
         "[(''Labels'', JNumber ''6'')]" "''6''" 6 enc0 "[]"] h
  have "childrenLoop exReg enc0 [(''Labels'', JNumber ''6'')] [exLabelsElement] =
     childrenLoop exReg
       (enc0\<lparr>enc_out := enc_out enc0 @
          [TStart (StartElement (XmlName '''' (jt_XmlTag ?st)) []),
           TCharData (Join [EnumValues exLabel ! i. i \<leftarrow> [0..<length (EnumValues exLabel)], bit (6 :: int) i] '' ''),
           TEnd (XmlName '''' (jt_XmlTag ?st))]\<rparr>)
       (delete (je_JsonName exLabelsElement) [(''Labels'', JNumber ''6'')]) []"
    by (rule mp)
  then have r: "childrenLoop exReg enc0 [(''Labels'', JNumber ''6'')] [exLabelsElement]
     = Inr (\<lparr>enc_out = [tag ''t:Labels'', TCharData ''A B'', endTag ''t:Labels''],
             enc_tags = []\<rparr>, [])"
    unfolding b by (simp add: enc0_def tag_def endTag_def delete_def exLabelsElement_def
        emptyJsonElement_def)
  from h have a: "Atoi ''6'' = Some 6" by simp
  from b have j: "Join [EnumValues exLabel ! i. i \<leftarrow> [0..<length (EnumValues exLabel)], bit (6 :: int) i] '' ''
       = ''A B''" by simp
  from r v a j show ?thesis by (intro conjI)
qed

text \<open>
  C4. \<^verbatim>\<open>processJson\<close> reads the label of an enum-typed scalar with
  \<^verbatim>\<open>ewsType.EnumValues[num]\<close> and checks no range: for the labels
  \<^verbatim>\<open>["None","A","B","C"]\<close> the indices 7 and -1 end in the run-time panic
  \<^verbatim>\<open>index out of range\<close>, not in a returned error; the index 2 writes the label \<^verbatim>\<open>B\<close>.
\<close>

theorem C4_enum_index_out_of_range_panics:
  "processJson exReg enc0 (JNumber ''7'') exFlagElement = Inl (Panic IndexOutOfRange)
   \<and> processJson exReg enc0 (JNumber ''-1'') exFlagElement = Inl (Panic IndexOutOfRange)
   \<and> processJson exReg enc0 (JNumber ''2'') exFlagElement
       = Inr \<lparr>enc_out = [tag ''t:Flag'', TCharData ''B'', endTag ''t:Flag''], enc_tags = []\<rparr>"
  by code_simp

subsection \<open>Strictness of \<^verbatim>\<open>processJsonObject\<close>\<close>

lemma filter_absent:
  "map_of element k = None \<Longrightarrow>
     filter (\<lambda>kv. fst kv \<noteq> k \<and> P kv) element = filter P element"
  by (rule filter_cong) (auto simp: map_of_eq_None_iff)

lemma delete_absent: "map_of element k = None \<Longrightarrow> delete k element = element"
  by (auto simp: delete_def map_of_eq_None_iff filter_id_conv)

lemma attrLoop_keys:
  "attrLoop as element attrs = Inr (attrs', element') \<Longrightarrow>
     element' = filter (\<lambda>kv. fst kv \<notin> JN ` set as) element"
proof (induction as arbitrary: element attrs)
  case Nil
  then show ?case by simp
next
  case (Cons a as)
  show ?case
  proof (cases "map_of element (JN a)")
    case None
    with Cons.prems have "attrLoop as element attrs = Inr (attrs', element')" by simp
    from Cons.IH [OF this] filter_absent [OF None, of "\<lambda>kv. fst kv \<notin> JN ` set as"]
    show ?thesis by simp
  next
    case (Some oo)
    with Cons.prems obtain attrStr where
      "attrLoop as (delete (JN a) element) (attrs @ [Attr (XmlName '''' (XN a)) attrStr])
         = Inr (attrs', element')"
      by (auto split: sum.splits)
    from Cons.IH [OF this] show ?thesis by (simp add: delete_def conj_commute)
  qed
qed

lemma childrenLoop_keys:
  "childrenLoop reg enc element jes = Inr (enc', element') \<Longrightarrow>
     element' = filter (\<lambda>kv. fst kv \<notin> je_JsonName ` set jes) element"
proof (induction jes arbitrary: enc element)
  case Nil
  then show ?case by simp
next
  case (Cons je jes)
  show ?case
  proof (cases "map_of element (je_JsonName je)")
    case None
    with Cons.prems have "childrenLoop reg enc element jes = Inr (enc', element')" by simp
    from Cons.IH [OF this] filter_absent [OF None, of "\<lambda>kv. fst kv \<notin> je_JsonName ` set jes"]
    show ?thesis by simp
  next
    case (Some ob)
    with Cons.prems obtain enc1 where
      "childrenLoop reg enc1 (delete (je_JsonName je) element) jes = Inr (enc', element')"
      by (auto split: sum.splits option.splits prod.splits)
    from Cons.IH [OF this] show ?thesis by (simp add: delete_def conj_commute)
  qed
qed

lemma textBody_keys:
  "textBody typ enc element = Inr (enc', element') \<Longrightarrow> element' = delete (TextAttr typ) element"
  by (auto simp: textBody_def delete_absent split: option.splits sum.splits)

lemma fold_delete: "fold delete ks element = filter (\<lambda>kv. fst kv \<notin> set ks) element"
  by (induction ks arbitrary: element) (auto simp: delete_def conj_commute)

lemma objectBody_keys:
  assumes "objectBody reg enc typ element1 = Inr (enc2, element2)"
  shows "element2 = filter (\<lambda>kv. fst kv \<notin> bodyKeys typ) element1"
proof (cases "IsSimple typ \<and> TextAttr typ \<noteq> ''''")
  case True
  with assms have "textBody typ enc element1 = Inr (enc2, element2)"
    by (simp add: objectBody_def)
  from textBody_keys [OF this] True show ?thesis by (auto simp: bodyKeys_def delete_def)
next
  case c1: False
  show ?thesis
  proof (cases "JsonListName typ \<noteq> ''''")
    case True
    with assms c1 have "element2 = delete (JsonListName typ) element1"
      by (auto simp: objectBody_def split: option.splits if_splits sum.splits)
    with c1 True show ?thesis by (auto simp: bodyKeys_def delete_def)
  next
    case False
    with assms c1 have "childrenLoop reg enc element1 (JsonElementList typ) = Inr (enc2, element2)"
      by (simp add: objectBody_def)
    from childrenLoop_keys [OF this] c1 False show ?thesis by (auto simp: bodyKeys_def)
  qed
qed

lemma unconsumed_steps:
  "fold delete (JsonExtra typ)
     (filter (\<lambda>kv. fst kv \<notin> bodyKeys typ)
        (filter (\<lambda>kv. fst kv \<notin> JN ` set (Attributes typ)) (delete ''__type'' element)))
   = unconsumed typ element"
  unfolding fold_delete unconsumed_def consumedKeys_def delete_def filter_filter
  by (rule filter_cong) auto

lemma processJsonObject_unfold:
  "processJsonObject reg enc element edesc =
     (case resolveType edesc element of
        Inl e \<Rightarrow> Inl e
      | Inr jtyp \<Rightarrow>
          (case ewsTypes reg (jt_Type jtyp) of
             None \<Rightarrow> Inl (Panic NilPointer)
           | Some typ \<Rightarrow>
               if IsSimple typ \<and> TextAttr typ = '''' then Inl (IsASimpleType (Name typ))
               else
                 (case attrLoop (Attributes typ) (delete ''__type'' element) [] of
                    Inl e \<Rightarrow> Inl e
                  | Inr (attrs, element1) \<Rightarrow>
                      (case EmitStart jtyp enc attrs of
                         Inl e \<Rightarrow> Inl e
                       | Inr enc1 \<Rightarrow>
                           (case objectBody reg enc1 typ element1 of
                              Inl e \<Rightarrow> Inl e
                            | Inr (enc2, element2) \<Rightarrow> finishObject typ jtyp enc2 element2)))))"
  unfolding processJsonObject.simps [of reg enc element edesc] objectBody_def
  by (rule refl)

lemma processJsonObject_strict:
  assumes r: "resolveType edesc element = Inr jtyp"
    and t: "ewsTypes reg (jt_Type jtyp) = Some typ"
    and s: "\<not> (IsSimple typ \<and> TextAttr typ = '''')"
    and a: "attrLoop (Attributes typ) (delete ''__type'' element) [] = Inr (attrs, element1)"
    and e: "EmitStart jtyp enc attrs = Inr enc1"
    and b: "objectBody reg enc1 typ element1 = Inr (enc2, element2)"
  shows "processJsonObject reg enc element edesc =
           (if unconsumed typ element \<noteq> []
            then Inl (ExtraElements (Name typ) (unconsumed typ element))
            else EmitEnd jtyp enc2)"
proof -
  from attrLoop_keys [OF a] objectBody_keys [OF b]
  have "fold delete (JsonExtra typ) element2 = unconsumed typ element"
    using unconsumed_steps [of "typ" element] by simp
  then have "finishObject typ jtyp enc2 element2 =
           (if unconsumed typ element \<noteq> []
            then Inl (ExtraElements (Name typ) (unconsumed typ element))
            else EmitEnd jtyp enc2)"
    by (simp add: finishObject_def)
  moreover from s have "(IsSimple typ \<and> TextAttr typ = '''') = False" by simp
  ultimately show ?thesis using r t a e b
    by (simp only: processJsonObject_unfold sum.case option.case prod.case if_False)
qed

lemma EncodeToken_not_extra: "EncodeToken enc tok \<noteq> Inl (ExtraElements n l)"
  by (cases tok) (auto split: list.splits)

lemma processJsonChardata_not_extra: "processJsonChardata enc el \<noteq> Inl (ExtraElements n l)"
  by (cases el) (auto simp: processJsonChardata_def EncodeToken_not_extra)

lemma processSimple_not_extra: "processSimple reg enc el edesc \<noteq> Inl (ExtraElements n l)"
  unfolding processSimple_def
  by (auto split: sum.splits option.splits if_splits simp: IsCharData_def)

lemma processJson_not_extra: "processJson reg enc v je \<noteq> Inl (ExtraElements n l)"
  by (cases v) (auto simp: processJson.simps [of reg enc] processSimple_not_extra
      split: sum.splits)

lemma emitEnumList_not_extra: "emitEnumList enc ob st it nm \<noteq> Inl (ExtraElements n l)"
proof -
  have "testBits bits vs i \<noteq> Inl (ExtraElements n l)" for bits vs i
    by (induction vs arbitrary: i) (auto simp: Test_def split: sum.splits if_splits)
  then show ?thesis
    unfolding emitEnumList_def by (auto split: sum.splits option.splits)
qed

lemma childrenLoop_not_extra: "childrenLoop reg enc element jes \<noteq> Inl (ExtraElements n l)"
proof (induction jes arbitrary: enc element)
  case Nil
  then show ?case by simp
next
  case (Cons je jes)
  show ?case
  proof (cases "map_of element (je_JsonName je)")
    case None
    with Cons show ?thesis by simp
  next
    case (Some ob)
    show ?thesis
    proof (cases "enumListType reg je")
      case (Inl e)
      with Some show ?thesis
        by (auto simp: enumListType_def split: option.splits if_splits)
    next
      case (Inr r)
      show ?thesis
      proof (cases r)
        case None
        with Some Inr Cons.IH show ?thesis
          by (auto simp: processJson_not_extra split: sum.splits)
      next
        case (Some p)
        obtain st it where "p = (st, it)" by (cases p)
        with Some \<open>map_of element (je_JsonName je) = Some ob\<close> Inr Cons.IH show ?thesis
          by (auto simp: emitEnumList_not_extra split: sum.splits)
      qed
    qed
  qed
qed

lemma attrLoop_not_extra: "attrLoop as element attrs \<noteq> Inl (ExtraElements n l)"
  by (induction as arbitrary: element attrs) (auto split: option.splits sum.splits)

lemma objectBody_not_extra: "objectBody reg enc typ element \<noteq> Inl (ExtraElements n l)"
  unfolding objectBody_def textBody_def
  by (auto simp: childrenLoop_not_extra processJson_not_extra
        split: option.splits sum.splits if_splits)

lemma resolveType_not_extra: "resolveType edesc element \<noteq> Inl (ExtraElements n l)"
proof -
  have "applyXmlChoiceHook h edesc element \<noteq> Inl (ExtraElements n l)" for h
    by (cases h) (auto split: option.splits json.splits)
  then show ?thesis
    unfolding resolveType_def by (auto split: option.splits json.splits)
qed

lemma EmitEnd_not_extra: "EmitEnd jtyp enc \<noteq> Inl (ExtraElements n l)"
  unfolding EmitEnd_def by (rule EncodeToken_not_extra)

lemma EmitStart_not_extra: "EmitStart jtyp enc attrs \<noteq> Inl (ExtraElements n l)"
  unfolding EmitStart_def by (rule EncodeToken_not_extra)

lemma finishObject_extra:
  "finishObject typ jtyp enc element = Inl (ExtraElements n l) \<Longrightarrow>
     n = Name typ \<and> l = fold delete (JsonExtra typ) element \<and> l \<noteq> []"
  by (auto simp: finishObject_def EmitEnd_not_extra split: if_splits)

text \<open>
  C5. Let \<^verbatim>\<open>processJsonObject\<close> translate an object with the type \<open>typ\<close>. If members
  are left after the discriminator, the declared attributes, the text attribute or list
  key or declared children and the droppable extras are taken away (\<open>unconsumed\<close>), the
  function returns an error; the strictness error it returns is never another one than
  the type name with exactly these members, so that an object with no unconsumed key never
  raises it; and once the steps before the check have gone through, unconsumed members
  give exactly this error and no unconsumed member leads on to the end tag.
\<close>

theorem C5_unconsumed_keys_are_an_error:
  "resolveType edesc element = Inr jtyp \<and> ewsTypes reg (jt_Type jtyp) = Some typ \<longrightarrow>
     (unconsumed typ element \<noteq> [] \<longrightarrow> (\<exists>e. processJsonObject reg enc element edesc = Inl e))
     \<and> (\<forall>n left. processJsonObject reg enc element edesc = Inl (ExtraElements n left) \<longrightarrow>
           n = Name typ \<and> left = unconsumed typ element \<and> left \<noteq> [])
     \<and> (\<forall>attrs element1 enc1 enc2 element2.
           \<not> (IsSimple typ \<and> TextAttr typ = '''')
           \<and> attrLoop (Attributes typ) (delete ''__type'' element) [] = Inr (attrs, element1)
           \<and> EmitStart jtyp enc attrs = Inr enc1
           \<and> objectBody reg enc1 typ element1 = Inr (enc2, element2) \<longrightarrow>
           processJsonObject reg enc element edesc =
             (if unconsumed typ element \<noteq> []
              then Inl (ExtraElements (Name typ) (unconsumed typ element))
              else EmitEnd jtyp enc2))"
proof (intro impI, elim conjE)
  assume r: "resolveType edesc element = Inr jtyp"
    and t: "ewsTypes reg (jt_Type jtyp) = Some typ"
  have strict: "processJsonObject reg enc element edesc =
             (if unconsumed typ element \<noteq> []
              then Inl (ExtraElements (Name typ) (unconsumed typ element))
              else EmitEnd jtyp enc2)"
    if "\<not> (IsSimple typ \<and> TextAttr typ = '''')"
      "attrLoop (Attributes typ) (delete ''__type'' element) [] = Inr (attrs, element1)"
      "EmitStart jtyp enc attrs = Inr enc1"
      "objectBody reg enc1 typ element1 = Inr (enc2, element2)"
    for attrs element1 enc1 enc2 element2
    using processJsonObject_strict [OF r t that] .
  have cases: "(\<exists>e. processJsonObject reg enc element edesc = Inl e
                     \<and> (\<forall>n l. e \<noteq> ExtraElements n l))
               \<or> (\<exists>enc2. processJsonObject reg enc element edesc =
                     (if unconsumed typ element \<noteq> []
                      then Inl (ExtraElements (Name typ) (unconsumed typ element))
                      else EmitEnd jtyp enc2))"
  proof (cases "IsSimple typ \<and> TextAttr typ = ''''")
    case True
    with r t have "processJsonObject reg enc element edesc = Inl (IsASimpleType (Name typ))"
      by (simp add: processJsonObject_unfold)
    then show ?thesis by simp
  next
    case s: False
    then have s': "(IsSimple typ \<and> TextAttr typ = '''') = False" by simp
    show ?thesis
    proof (cases "attrLoop (Attributes typ) (delete ''__type'' element) []")
      case (Inl e)
      with r t s' have "processJsonObject reg enc element edesc = Inl e"
        by (simp only: processJsonObject_unfold sum.case option.case if_False)
      with Inl attrLoop_not_extra show ?thesis by metis
    next
      case (Inr p)
      obtain attrs element1 where p: "p = (attrs, element1)" by (cases p)
      show ?thesis
      proof (cases "EmitStart jtyp enc attrs")
        case (Inl e)
        with r t s' Inr p have "processJsonObject reg enc element edesc = Inl e"
          by (simp only: processJsonObject_unfold sum.case option.case prod.case if_False)
        with Inl EmitStart_not_extra show ?thesis by metis
      next
        case es: (Inr enc1)
        show ?thesis
        proof (cases "objectBody reg enc1 typ element1")
          case (Inl e)
          with r t s' Inr p es have "processJsonObject reg enc element edesc = Inl e"
            by (simp only: processJsonObject_unfold sum.case option.case prod.case if_False)
          with Inl objectBody_not_extra show ?thesis by metis
        next
          case ob: (Inr q)
          obtain enc2 element2 where q: "q = (enc2, element2)" by (cases q)
          from strict [OF s Inr [unfolded p] es ob [unfolded q]] show ?thesis by blast
        qed
      qed
    qed
  qed
  show "(unconsumed typ element \<noteq> [] \<longrightarrow> (\<exists>e. processJsonObject reg enc element edesc = Inl e))
     \<and> (\<forall>n left. processJsonObject reg enc element edesc = Inl (ExtraElements n left) \<longrightarrow>
           n = Name typ \<and> left = unconsumed typ element \<and> left \<noteq> [])
     \<and> (\<forall>attrs element1 enc1 enc2 element2.
           \<not> (IsSimple typ \<and> TextAttr typ = '''')
           \<and> attrLoop (Attributes typ) (delete ''__type'' element) [] = Inr (attrs, element1)
           \<and> EmitStart jtyp enc attrs = Inr enc1
           \<and> objectBody reg enc1 typ element1 = Inr (enc2, element2) \<longrightarrow>
           processJsonObject reg enc element edesc =
             (if unconsumed typ element \<noteq> []
              then Inl (ExtraElements (Name typ) (unconsumed typ element))
              else EmitEnd jtyp enc2))"
  proof (intro conjI allI impI)
    assume u: "unconsumed typ element \<noteq> []"
    from cases show "\<exists>e. processJsonObject reg enc element edesc = Inl e"
    proof
      assume "\<exists>e. processJsonObject reg enc element edesc = Inl e
                     \<and> (\<forall>n l. e \<noteq> ExtraElements n l)"
      then show ?thesis by blast
    next
      assume "\<exists>enc2. processJsonObject reg enc element edesc =
                     (if unconsumed typ element \<noteq> []
                      then Inl (ExtraElements (Name typ) (unconsumed typ element))
                      else EmitEnd jtyp enc2)"
      with u show ?thesis by auto
    qed
  next
    fix n left
    assume x: "processJsonObject reg enc element edesc = Inl (ExtraElements n left)"
    from cases have "n = Name typ \<and> left = unconsumed typ element \<and> left \<noteq> []"
    proof
      assume "\<exists>e. processJsonObject reg enc element edesc = Inl e
                     \<and> (\<forall>n l. e \<noteq> ExtraElements n l)"
      with x show ?thesis by auto
    next
      assume "\<exists>enc2. processJsonObject reg enc element edesc =
                     (if unconsumed typ element \<noteq> []
                      then Inl (ExtraElements (Name typ) (unconsumed typ element))
                      else EmitEnd jtyp enc2)"
      then obtain enc2 where "processJsonObject reg enc element edesc =
                     (if unconsumed typ element \<noteq> []
                      then Inl (ExtraElements (Name typ) (unconsumed typ element))
                      else EmitEnd jtyp enc2)" ..
      with x EmitEnd_not_extra [of jtyp enc2 n left] show ?thesis
        by (cases "unconsumed typ element \<noteq> []") auto
    qed
    then show "n = Name typ" "left = unconsumed typ element" "left \<noteq> []" by auto
  next
    fix attrs element1 enc1 enc2 element2
    assume "\<not> (IsSimple typ \<and> TextAttr typ = '''')
           \<and> attrLoop (Attributes typ) (delete ''__type'' element) [] = Inr (attrs, element1)
           \<and> EmitStart jtyp enc attrs = Inr enc1
           \<and> objectBody reg enc1 typ element1 = Inr (enc2, element2)"
    then show "processJsonObject reg enc element edesc =
             (if unconsumed typ element \<noteq> []
              then Inl (ExtraElements (Name typ) (unconsumed typ element))
              else EmitEnd jtyp enc2)"
      using strict by blast
  qed
qed

theorem C5_unconsumed_keys_are_an_error_witness:
  "resolveType exItemElement
     [(''__type'', JString ''Item:#Exchange''), (''Id'', JString ''i1''),
      (''Subject'', JString ''Hello''), (''Extra'', JNull), (''Unknown'', JBool True)]
     = Inr \<lparr>jt_Type = ''ItemType'', jt_XmlTag = ''t:Item''\<rparr>
   \<and> ewsTypes exReg ''ItemType'' = Some exItem
   \<and> unconsumed exItem
       [(''__type'', JString ''Item:#Exchange''), (''Id'', JString ''i1''),
        (''Subject'', JString ''Hello''), (''Extra'', JNull), (''Unknown'', JBool True)]
     = [(''Unknown'', JBool True)]
   \<and> processJsonObject exReg enc0
       [(''__type'', JString ''Item:#Exchange''), (''Id'', JString ''i1''),
        (''Subject'', JString ''Hello''), (''Extra'', JNull), (''Unknown'', JBool True)]
       exItemElement
     = Inl (ExtraElements ''ItemType'' [(''Unknown'', JBool True)])
   \<and> processJsonObject exReg enc0
       [(''__type'', JString ''Item:#Exchange''), (''Id'', JString ''i1''),
        (''Subject'', JString ''Hello''), (''Extra'', JNull)]
       exItemElement
     = Inr \<lparr>enc_out =
             [TStart (StartElement (XmlName '''' ''t:Item'') [Attr (XmlName '''' ''Id'') ''i1'']),
              tag ''t:Subject'', TCharData ''Hello'', endTag ''t:Subject'', endTag ''t:Item''],
           enc_tags = []\<rparr>"
proof -
  let ?el = "[(''__type'', JString ''Item:#Exchange''), (''Id'', JString ''i1''),
      (''Subject'', JString ''Hello''), (''Extra'', JNull), (''Unknown'', JBool True)]"
  let ?jt = "\<lparr>jt_Type = ''ItemType'', jt_XmlTag = ''t:Item''\<rparr>"
  have r: "resolveType exItemElement ?el = Inr ?jt" by code_simp
  have t: "ewsTypes exReg (jt_Type ?jt) = Some exItem" by code_simp
  have t': "ewsTypes exReg ''ItemType'' = Some exItem" by code_simp
  have u: "unconsumed exItem ?el = [(''Unknown'', JBool True)]" by code_simp
  have ok: "processJsonObject exReg enc0
       [(''__type'', JString ''Item:#Exchange''), (''Id'', JString ''i1''),
        (''Subject'', JString ''Hello''), (''Extra'', JNull)]
       exItemElement
     = Inr \<lparr>enc_out =
             [TStart (StartElement (XmlName '''' ''t:Item'') [Attr (XmlName '''' ''Id'') ''i1'']),
              tag ''t:Subject'', TCharData ''Hello'', endTag ''t:Subject'', endTag ''t:Item''],
           enc_tags = []\<rparr>" by code_simp
  have bad: "processJsonObject exReg enc0 ?el exItemElement
     = Inl (ExtraElements ''ItemType'' [(''Unknown'', JBool True)])" by code_simp
  from C5_unconsumed_keys_are_an_error [of exItemElement ?el ?jt exReg exItem enc0] r t
  have "(unconsumed exItem ?el \<noteq> [] \<longrightarrow> (\<exists>e. processJsonObject exReg enc0 ?el exItemElement = Inl e))
     \<and> (\<forall>n left. processJsonObject exReg enc0 ?el exItemElement = Inl (ExtraElements n left) \<longrightarrow>
           n = Name exItem \<and> left = unconsumed exItem ?el \<and> left \<noteq> [])"
    by blast
  with bad have "unconsumed exItem ?el = [(''Unknown'', JBool True)]" by simp
  with r t' bad ok show ?thesis by (intro conjI)
qed

subsection \<open>The type hints of the response messages\<close>

lemma map_of_assign:
  "map_of (assign m k v) k' = (if k' = k then Some v else map_of m k')"
  by (induction m) auto

lemma stampItems_Inr:
  "stampItems t items = Inr items' \<longleftrightarrow>
     list_all isObject items \<and> items' = map (stampItem t) items"
proof (induction items arbitrary: items')
  case Nil
  then show ?case by auto
next
  case (Cons g items)
  show ?case
  proof (cases g)
    case (JObject item)
    show ?thesis
    proof (cases "stampItems t items")
      case (Inl e)
      with Cons.IH [of "map (stampItem t) items"] have "\<not> list_all isObject items" by simp
      with Inl JObject show ?thesis by simp
    next
      case (Inr r)
      with Cons.IH [of r] have "list_all isObject items" "r = map (stampItem t) items"
        by simp_all
      moreover from JObject have "isObject g"
        and "stampItem t g = JObject (assign item ''__type'' (JString t))"
        by (simp_all add: isObject_def stampItem_def)
      ultimately show ?thesis using Inr JObject by auto
    qed
  qed (auto simp: isObject_def)
qed

lemma stampItems_stampedChild:
  "map_of cm ''Items'' = Some (JArray items) \<Longrightarrow> stampItems t items = Inr items' \<Longrightarrow>
     stampedChild t (JObject cm) = Some (JObject (assign cm ''Items'' (JArray items')))"
  by (simp add: stampedChild_def stampItems_Inr)

lemma stampedChild_other: "\<not> isObject v \<Longrightarrow> stampedChild t v = Some v"
  by (cases v) (auto simp: stampedChild_def isObject_def)

lemma stampChildren_result:
  "stampChildren t names bdy = Inr bdy' \<Longrightarrow> distinct names \<Longrightarrow>
     (\<forall>n v. n \<in> set names \<and> map_of bdy n = Some v \<longrightarrow> map_of bdy' n = stampedChild t v)
     \<and> (\<forall>n. n \<notin> set names \<or> map_of bdy n = None \<longrightarrow> map_of bdy' n = map_of bdy n)"
proof (induction names arbitrary: bdy)
  case Nil
  then show ?case by simp
next
  case (Cons c names)
  from Cons.prems(2) have d: "distinct names" and cn: "c \<notin> set names" by simp_all
  show ?case
  proof (cases "map_of bdy c")
    case None
    with Cons.prems(1) have "stampChildren t names bdy = Inr bdy'" by simp
    from Cons.IH [OF this d] None cn show ?thesis by auto
  next
    case (Some childBody)
    show ?thesis
    proof (cases "isObject childBody")
      case False
      with Some Cons.prems(1) have "stampChildren t names bdy = Inr bdy'"
        by (cases childBody) (auto simp: isObject_def)
      from Cons.IH [OF this d] Some cn stampedChild_other [OF False, of t] show ?thesis
        by auto
    next
      case True
      then obtain cm where cb: "childBody = JObject cm"
        by (cases childBody) (auto simp: isObject_def)
      with Some Cons.prems(1) obtain items items' where
        it: "map_of cm ''Items'' = Some (JArray items)"
        and st: "stampItems t items = Inr items'"
        and r: "stampChildren t names
                  (assign bdy c (JObject (assign cm ''Items'' (JArray items')))) = Inr bdy'"
        by (auto split: option.splits json.splits sum.splits)
      let ?b = "assign bdy c (JObject (assign cm ''Items'' (JArray items')))"
      note ih = Cons.IH [OF r d]
      have 1: "\<forall>n v. n \<in> set names \<and> map_of bdy n = Some v \<longrightarrow> map_of bdy' n = stampedChild t v"
      proof (intro allI impI)
        fix n v
        assume a: "n \<in> set names \<and> map_of bdy n = Some v"
        with cn have "n \<noteq> c" by auto
        with a have "n \<in> set names \<and> map_of ?b n = Some v" by (simp add: map_of_assign)
        with ih show "map_of bdy' n = stampedChild t v" by blast
      qed
      have 2: "\<forall>n. n \<notin> set names \<and> n \<noteq> c \<or> map_of bdy n = None \<and> n \<noteq> c \<longrightarrow>
                  map_of bdy' n = map_of bdy n"
      proof (intro allI impI)
        fix n
        assume a: "n \<notin> set names \<and> n \<noteq> c \<or> map_of bdy n = None \<and> n \<noteq> c"
        then have nc: "n \<noteq> c" by auto
        with a have "n \<notin> set names \<or> map_of ?b n = None" by (auto simp: map_of_assign)
        with ih have "map_of bdy' n = map_of ?b n" by blast
        with nc show "map_of bdy' n = map_of bdy n" by (simp add: map_of_assign)
      qed
      from ih cn have "map_of bdy' c = map_of ?b c" by blast
      then have 3: "map_of bdy' c = Some (JObject (assign cm ''Items'' (JArray items')))"
        by (simp add: map_of_assign)
      from 3 stampItems_stampedChild [OF it st] Some cb
      have 4: "map_of bdy' c = stampedChild t childBody" by simp
      from 1 2 4 Some show ?thesis by auto
    qed
  qed
qed

lemma stampChildren_result_Some:
  "stampChildren t names bdy = Inr bdy' \<Longrightarrow> n \<in> set names \<Longrightarrow> map_of bdy n = Some v \<Longrightarrow>
     stampedChild t v \<noteq> None"
proof (induction names arbitrary: bdy)
  case Nil
  then show ?case by simp
next
  case (Cons c names)
  show ?case
  proof (cases "map_of bdy c")
    case None
    with Cons.prems have "stampChildren t names bdy = Inr bdy'" "n \<in> set names" by auto
    with Cons.IH Cons.prems(3) show ?thesis by blast
  next
    case (Some childBody)
    show ?thesis
    proof (cases "isObject childBody")
      case False
      with Some Cons.prems(1) have r: "stampChildren t names bdy = Inr bdy'"
        by (cases childBody) (auto simp: isObject_def)
      show ?thesis
      proof (cases "n = c")
        case True
        with Some Cons.prems(3) False show ?thesis by (simp add: stampedChild_other)
      next
        case False
        with Cons.prems(2) have "n \<in> set names" by simp
        with Cons.IH r Cons.prems(3) show ?thesis by blast
      qed
    next
      case True
      then obtain cm where cb: "childBody = JObject cm"
        by (cases childBody) (auto simp: isObject_def)
      with Some Cons.prems(1) obtain items items' where
        it: "map_of cm ''Items'' = Some (JArray items)"
        and st: "stampItems t items = Inr items'"
        and r: "stampChildren t names
                  (assign bdy c (JObject (assign cm ''Items'' (JArray items')))) = Inr bdy'"
        by (auto split: option.splits json.splits sum.splits)
      show ?thesis
      proof (cases "n = c")
        case True
        with Some Cons.prems(3) cb stampItems_stampedChild [OF it st] show ?thesis by simp
      next
        case False
        with Cons.prems(2) have m: "n \<in> set names" by simp
        from False Cons.prems(3)
        have "map_of (assign bdy c (JObject (assign cm ''Items'' (JArray items')))) n = Some v"
          by (simp add: map_of_assign)
        with Cons.IH [OF r m] show ?thesis .
      qed
    qed
  qed
qed

lemma stampChildren_no_Items:
  "n \<in> set names \<Longrightarrow> map_of bdy n = Some (JObject cm) \<Longrightarrow> map_of cm ''Items'' = None \<Longrightarrow>
     \<exists>e. stampChildren t names bdy = Inl e"
proof -
  assume a: "n \<in> set names" "map_of bdy n = Some (JObject cm)" "map_of cm ''Items'' = None"
  show ?thesis
  proof (cases "stampChildren t names bdy")
    case (Inl e)
    then show ?thesis by simp
  next
    case (Inr bdy')
    from stampChildren_result_Some [OF Inr a(1) a(2)] a(3) show ?thesis
      by (simp add: stampedChild_def)
  qed
qed

lemma stampChildren_first_no_Items:
  "map_of bdy n = Some (JObject cm) \<Longrightarrow> map_of cm ''Items'' = None \<Longrightarrow>
     stampChildren t (n # names) bdy = Inl (CannotFindItems n)"
  by simp

lemma stampChildren_no_objects:
  "\<forall>n \<in> set names. \<forall>v. map_of bdy n = Some v \<longrightarrow> \<not> isObject v \<Longrightarrow>
     stampChildren t names bdy = Inr bdy"
proof (induction names)
  case Nil
  then show ?case by simp
next
  case (Cons c names)
  then have r: "stampChildren t names bdy = Inr bdy" by simp
  show ?case
  proof (cases "map_of bdy c")
    case None
    with r show ?thesis by simp
  next
    case (Some v)
    with Cons.prems have "\<not> isObject v" by simp
    with Some r show ?thesis by (cases v) (auto simp: isObject_def)
  qed
qed

lemma stampChildren_succeeds:
  "distinct names \<Longrightarrow>
   \<forall>n \<in> set names. \<forall>v. map_of bdy n = Some v \<longrightarrow> stampedChild t v \<noteq> None \<Longrightarrow>
     \<exists>bdy'. stampChildren t names bdy = Inr bdy'"
proof (induction names arbitrary: bdy)
  case Nil
  then show ?case by simp
next
  case (Cons c names)
  from Cons.prems(1) have d: "distinct names" and cn: "c \<notin> set names" by simp_all
  from Cons.prems(2)
  have rest: "\<forall>n \<in> set names. \<forall>v. map_of bdy n = Some v \<longrightarrow> stampedChild t v \<noteq> None"
    by simp
  show ?case
  proof (cases "map_of bdy c")
    case None
    with Cons.IH [OF d rest] show ?thesis by simp
  next
    case (Some childBody)
    show ?thesis
    proof (cases "isObject childBody")
      case False
      with Some Cons.IH [OF d rest] show ?thesis
        by (cases childBody) (auto simp: isObject_def)
    next
      case True
      then obtain cm where cb: "childBody = JObject cm"
        by (cases childBody) (auto simp: isObject_def)
      from Cons.prems(2) Some cb have "stampedChild t (JObject cm) \<noteq> None" by simp
      then obtain items where it: "map_of cm ''Items'' = Some (JArray items)"
        and ob: "list_all isObject items"
        by (auto simp: stampedChild_def split: option.splits json.splits if_splits)
      from ob have st: "stampItems t items = Inr (map (stampItem t) items)"
        by (simp add: stampItems_Inr)
      let ?b = "assign bdy c (JObject (assign cm ''Items'' (JArray (map (stampItem t) items))))"
      have "\<forall>n \<in> set names. \<forall>v. map_of ?b n = Some v \<longrightarrow> stampedChild t v \<noteq> None"
      proof (intro ballI allI impI)
        fix n v
        assume n: "n \<in> set names" and v: "map_of ?b n = Some v"
        from n cn have "n \<noteq> c" by auto
        with v have "map_of bdy n = Some v" by (simp add: map_of_assign)
        with rest n show "stampedChild t v \<noteq> None" by blast
      qed
      from Cons.IH [OF d this] Some cb it st show ?thesis by simp
    qed
  qed
qed

lemma JSON2SOAP_stamp_error:
  "msg_Header msg = None \<Longrightarrow> msg_Body msg = Some bdy \<Longrightarrow> stampBody reg op' bdy = Inl e \<Longrightarrow>
     JSON2SOAP reg msg op' = Inl e"
  by (simp add: JSON2SOAP_def soapEnvelopeTag_def soapBodyTag_def)

lemma stampChildren_success_iff:
  "distinct names \<Longrightarrow>
     (\<exists>bdy'. stampChildren t names bdy = Inr bdy') \<longleftrightarrow>
       (\<forall>n \<in> set names. \<forall>v. map_of bdy n = Some v \<longrightarrow> stampedChild t v \<noteq> None)"
  using stampChildren_succeeds [of names bdy t] stampChildren_result_Some [of t names bdy]
  by blast

lemma stampChildren_order:
  assumes "distinct ns" and "distinct ms" and "set ns = set ms"
  shows "((\<exists>b. stampChildren t ns bdy = Inr b) \<longleftrightarrow> (\<exists>b. stampChildren t ms bdy = Inr b))
         \<and> (\<forall>b b'. stampChildren t ns bdy = Inr b \<and> stampChildren t ms bdy = Inr b'
               \<longrightarrow> map_of b = map_of b')"
proof
  from assms show "(\<exists>b. stampChildren t ns bdy = Inr b) \<longleftrightarrow> (\<exists>b. stampChildren t ms bdy = Inr b)"
    by (simp add: stampChildren_success_iff)
next
  show "\<forall>b b'. stampChildren t ns bdy = Inr b \<and> stampChildren t ms bdy = Inr b'
               \<longrightarrow> map_of b = map_of b'"
  proof (intro allI impI)
    fix b b'
    assume r: "stampChildren t ns bdy = Inr b \<and> stampChildren t ms bdy = Inr b'"
    note r1 = stampChildren_result [OF r [THEN conjunct1] assms(1)]
    note r2 = stampChildren_result [OF r [THEN conjunct2] assms(2)]
    show "map_of b = map_of b'"
    proof
      fix n
      show "map_of b n = map_of b' n"
      proof (cases "n \<in> set ns")
        case False
        with r1 have "map_of b n = map_of bdy n" by blast
        moreover from False assms(3) r2 have "map_of b' n = map_of bdy n" by blast
        ultimately show ?thesis by simp
      next
        case True
        show ?thesis
        proof (cases "map_of bdy n")
          case None
          with r1 have "map_of b n = map_of bdy n" by blast
          moreover from None r2 have "map_of b' n = map_of bdy n" by blast
          ultimately show ?thesis by simp
        next
          case (Some v)
          with True r1 have "map_of b n = stampedChild t v" by blast
          moreover from Some True assms(3) r2 have "map_of b' n = stampedChild t v" by blast
          ultimately show ?thesis by simp
        qed
      qed
    qed
  qed
qed

text \<open>
  C2, as the code has it. Before the body of the response is translated, every child
  element name of the response type of the operation is visited (the names are the keys of
  a map, so no name comes twice). The step succeeds exactly when every visited child that
  is present in the body is either no object or an object with an \<^verbatim>\<open>Items\<close> array of
  objects; then each such object has every item of \<^verbatim>\<open>Items\<close> stamped with \<^verbatim>\<open>__type\<close>,
  the JSON name of the response with \<^verbatim>\<open>Message\<close> appended, and the children that are no
  objects and all other members are as before. A visited child that is an object without
  the key \<^verbatim>\<open>Items\<close> is an error, whatever the registry declares, and the error of the
  step is the error of \<^verbatim>\<open>JSON2SOAP\<close>. The order in which the names are visited changes
  neither the success of the step nor the members of its result.
\<close>

theorem C2_response_items_are_stamped:
  "je_SingleType (Response op') = Some st \<and> ewsTypes reg (jt_Type st) = Some rt
   \<and> distinct (map fst (TypeByElementName rt)) \<longrightarrow>
     ((\<exists>bdy'. stampBody reg op' bdy = Inr bdy') \<longleftrightarrow>
        (\<forall>n \<in> fst ` set (TypeByElementName rt). \<forall>v. map_of bdy n = Some v \<longrightarrow>
           stampedChild (je_JsonName (Response op') @ ''Message'') v \<noteq> None))
     \<and> (\<forall>bdy' n. stampBody reg op' bdy = Inr bdy' \<longrightarrow>
           map_of bdy' n =
             (if n \<in> fst ` set (TypeByElementName rt)
              then (case map_of bdy n of
                      None \<Rightarrow> None
                    | Some v \<Rightarrow> stampedChild (je_JsonName (Response op') @ ''Message'') v)
              else map_of bdy n))
     \<and> (\<forall>n cm. n \<in> fst ` set (TypeByElementName rt) \<and> map_of bdy n = Some (JObject cm)
           \<and> map_of cm ''Items'' = None \<longrightarrow> (\<exists>e. stampBody reg op' bdy = Inl e))
     \<and> ((\<forall>n \<in> fst ` set (TypeByElementName rt). \<forall>v. map_of bdy n = Some v \<longrightarrow> \<not> isObject v)
           \<longrightarrow> stampBody reg op' bdy = Inr bdy)
     \<and> (\<forall>e. msg_Header msg = None \<and> msg_Body msg = Some bdy \<and> stampBody reg op' bdy = Inl e
           \<longrightarrow> JSON2SOAP reg msg op' = Inl e)
     \<and> (\<forall>names. distinct names \<and> set names = fst ` set (TypeByElementName rt) \<longrightarrow>
           ((\<exists>b. stampChildren (je_JsonName (Response op') @ ''Message'') names bdy = Inr b)
              \<longleftrightarrow> (\<exists>b. stampBody reg op' bdy = Inr b))
           \<and> (\<forall>b b'. stampChildren (je_JsonName (Response op') @ ''Message'') names bdy = Inr b
                  \<and> stampBody reg op' bdy = Inr b' \<longrightarrow> map_of b = map_of b'))"
proof (intro impI)
  let ?t = "je_JsonName (Response op') @ ''Message''"
  let ?names = "map fst (TypeByElementName rt)"
  assume "je_SingleType (Response op') = Some st \<and> ewsTypes reg (jt_Type st) = Some rt
   \<and> distinct (map fst (TypeByElementName rt))"
  then have sb: "stampBody reg op' bdy = stampChildren ?t ?names bdy"
    and d: "distinct ?names"
    by (simp_all add: stampBody_def)
  have names: "set ?names = fst ` set (TypeByElementName rt)" by simp
  have 1: "(\<exists>bdy'. stampBody reg op' bdy = Inr bdy') \<longleftrightarrow>
        (\<forall>n \<in> fst ` set (TypeByElementName rt). \<forall>v. map_of bdy n = Some v \<longrightarrow>
           stampedChild ?t v \<noteq> None)"
  proof
    assume "\<exists>bdy'. stampBody reg op' bdy = Inr bdy'"
    then obtain bdy' where r: "stampChildren ?t ?names bdy = Inr bdy'" using sb by auto
    show "\<forall>n \<in> fst ` set (TypeByElementName rt). \<forall>v. map_of bdy n = Some v \<longrightarrow>
           stampedChild ?t v \<noteq> None"
    proof (intro ballI allI impI)
      fix n v
      assume "n \<in> fst ` set (TypeByElementName rt)" and v: "map_of bdy n = Some v"
      with names have "n \<in> set ?names" by simp
      from stampChildren_result_Some [OF r this v] show "stampedChild ?t v \<noteq> None" .
    qed
  next
    assume "\<forall>n \<in> fst ` set (TypeByElementName rt). \<forall>v. map_of bdy n = Some v \<longrightarrow>
           stampedChild ?t v \<noteq> None"
    with names have "\<forall>n \<in> set ?names. \<forall>v. map_of bdy n = Some v \<longrightarrow> stampedChild ?t v \<noteq> None"
      by simp
    from stampChildren_succeeds [OF d this] sb show "\<exists>bdy'. stampBody reg op' bdy = Inr bdy'"
      by simp
  qed
  have 2: "\<forall>bdy' n. stampBody reg op' bdy = Inr bdy' \<longrightarrow>
           map_of bdy' n =
             (if n \<in> fst ` set (TypeByElementName rt)
              then (case map_of bdy n of None \<Rightarrow> None | Some v \<Rightarrow> stampedChild ?t v)
              else map_of bdy n)"
  proof (intro allI impI)
    fix bdy' n
    assume "stampBody reg op' bdy = Inr bdy'"
    with sb have r: "stampChildren ?t ?names bdy = Inr bdy'" by simp
    note res = stampChildren_result [OF r d]
    show "map_of bdy' n =
             (if n \<in> fst ` set (TypeByElementName rt)
              then (case map_of bdy n of None \<Rightarrow> None | Some v \<Rightarrow> stampedChild ?t v)
              else map_of bdy n)"
    proof (cases "n \<in> set ?names")
      case False
      with res have "map_of bdy' n = map_of bdy n" by blast
      with False names show ?thesis by simp
    next
      case True
      show ?thesis
      proof (cases "map_of bdy n")
        case None
        with res have "map_of bdy' n = map_of bdy n" by blast
        with None True names show ?thesis by simp
      next
        case (Some v)
        with res True have "map_of bdy' n = stampedChild ?t v" by blast
        with Some True names show ?thesis by simp
      qed
    qed
  qed
  have 3: "\<forall>n cm. n \<in> fst ` set (TypeByElementName rt) \<and> map_of bdy n = Some (JObject cm)
           \<and> map_of cm ''Items'' = None \<longrightarrow> (\<exists>e. stampBody reg op' bdy = Inl e)"
  proof (intro allI impI)
    fix n cm
    assume a: "n \<in> fst ` set (TypeByElementName rt) \<and> map_of bdy n = Some (JObject cm)
           \<and> map_of cm ''Items'' = None"
    with names have "n \<in> set ?names" by simp
    from stampChildren_no_Items [OF this, of bdy cm ?t] a sb
    show "\<exists>e. stampBody reg op' bdy = Inl e" by simp
  qed
  have 4: "(\<forall>n \<in> fst ` set (TypeByElementName rt). \<forall>v. map_of bdy n = Some v \<longrightarrow> \<not> isObject v)
           \<longrightarrow> stampBody reg op' bdy = Inr bdy"
  proof
    assume "\<forall>n \<in> fst ` set (TypeByElementName rt). \<forall>v. map_of bdy n = Some v \<longrightarrow> \<not> isObject v"
    with names have "\<forall>n \<in> set ?names. \<forall>v. map_of bdy n = Some v \<longrightarrow> \<not> isObject v" by simp
    from stampChildren_no_objects [OF this] sb show "stampBody reg op' bdy = Inr bdy" by simp
  qed
  have 5: "\<forall>e. msg_Header msg = None \<and> msg_Body msg = Some bdy \<and> stampBody reg op' bdy = Inl e
           \<longrightarrow> JSON2SOAP reg msg op' = Inl e"
    using JSON2SOAP_stamp_error by blast
  have 6: "\<forall>names. distinct names \<and> set names = fst ` set (TypeByElementName rt) \<longrightarrow>
           ((\<exists>b. stampChildren ?t names bdy = Inr b) \<longleftrightarrow> (\<exists>b. stampBody reg op' bdy = Inr b))
           \<and> (\<forall>b b'. stampChildren ?t names bdy = Inr b \<and> stampBody reg op' bdy = Inr b'
                  \<longrightarrow> map_of b = map_of b')"
  proof (intro allI impI)
    fix ns
    assume "distinct ns \<and> set ns = fst ` set (TypeByElementName rt)"
    with names have "distinct ns" "set ns = set ?names" by simp_all
    from stampChildren_order [OF this(1) d this(2), of ?t bdy] sb
    show "((\<exists>b. stampChildren ?t ns bdy = Inr b) \<longleftrightarrow> (\<exists>b. stampBody reg op' bdy = Inr b))
           \<and> (\<forall>b b'. stampChildren ?t ns bdy = Inr b \<and> stampBody reg op' bdy = Inr b'
                  \<longrightarrow> map_of b = map_of b')"
      by simp
  qed
  from 1 2 3 4 5 6
  show "((\<exists>bdy'. stampBody reg op' bdy = Inr bdy') \<longleftrightarrow>
        (\<forall>n \<in> fst ` set (TypeByElementName rt). \<forall>v. map_of bdy n = Some v \<longrightarrow>
           stampedChild ?t v \<noteq> None))
     \<and> (\<forall>bdy' n. stampBody reg op' bdy = Inr bdy' \<longrightarrow>
           map_of bdy' n =
             (if n \<in> fst ` set (TypeByElementName rt)
              then (case map_of bdy n of None \<Rightarrow> None | Some v \<Rightarrow> stampedChild ?t v)
              else map_of bdy n))
     \<and> (\<forall>n cm. n \<in> fst ` set (TypeByElementName rt) \<and> map_of bdy n = Some (JObject cm)
           \<and> map_of cm ''Items'' = None \<longrightarrow> (\<exists>e. stampBody reg op' bdy = Inl e))
     \<and> ((\<forall>n \<in> fst ` set (TypeByElementName rt). \<forall>v. map_of bdy n = Some v \<longrightarrow> \<not> isObject v)
           \<longrightarrow> stampBody reg op' bdy = Inr bdy)
     \<and> (\<forall>e. msg_Header msg = None \<and> msg_Body msg = Some bdy \<and> stampBody reg op' bdy = Inl e
           \<longrightarrow> JSON2SOAP reg msg op' = Inl e)
     \<and> (\<forall>names. distinct names \<and> set names = fst ` set (TypeByElementName rt) \<longrightarrow>
           ((\<exists>b. stampChildren ?t names bdy = Inr b) \<longleftrightarrow> (\<exists>b. stampBody reg op' bdy = Inr b))
           \<and> (\<forall>b b'. stampChildren ?t names bdy = Inr b \<and> stampBody reg op' bdy = Inr b'
                  \<longrightarrow> map_of b = map_of b'))"
    by (intro conjI)
qed

theorem C2_response_items_are_stamped_witness:
  "je_SingleType (Response exOp)
     = Some \<lparr>jt_Type = ''GetFolderResponseType'', jt_XmlTag = ''m:GetFolderResponse''\<rparr>
   \<and> ewsTypes exReg ''GetFolderResponseType'' = Some exResponse
   \<and> distinct (map fst (TypeByElementName exResponse))
   \<and> stampBody exReg exOp
       [(''ResponseMessages'',
         JObject [(''Items'',
                   JArray [JObject [(''ResponseCode'', JString ''NoError'')],
                           JObject [(''__type'', JString ''Old''),
                                    (''ResponseCode'', JString ''ErrorItemNotFound'')]])]),
        (''Diagnostics'', JString ''none'')]
     = Inr [(''ResponseMessages'',
             JObject [(''Items'',
                       JArray [JObject [(''ResponseCode'', JString ''NoError''),
                                        (''__type'', JString ''GetFolderResponseMessage'')],
                               JObject [(''__type'', JString ''GetFolderResponseMessage''),
                                        (''ResponseCode'', JString ''ErrorItemNotFound'')]])]),
            (''Diagnostics'', JString ''none'')]
   \<and> stampedChild ''GetFolderResponseMessage''
       (JObject [(''Items'',
                  JArray [JObject [(''ResponseCode'', JString ''NoError'')],
                          JObject [(''__type'', JString ''Old''),
                                   (''ResponseCode'', JString ''ErrorItemNotFound'')]])])
     = Some (JObject [(''Items'',
                       JArray [JObject [(''ResponseCode'', JString ''NoError''),
                                        (''__type'', JString ''GetFolderResponseMessage'')],
                               JObject [(''__type'', JString ''GetFolderResponseMessage''),
                                        (''ResponseCode'', JString ''ErrorItemNotFound'')]])])
   \<and> (\<exists>e. stampBody exReg exOp
             [(''ResponseMessages'', JObject [(''ResponseCode'', JString ''NoError'')])] = Inl e)"
proof -
  let ?st = "\<lparr>jt_Type = ''GetFolderResponseType'', jt_XmlTag = ''m:GetFolderResponse''\<rparr>"
  let ?m = "JObject [(''Items'',
                  JArray [JObject [(''ResponseCode'', JString ''NoError'')],
                          JObject [(''__type'', JString ''Old''),
                                   (''ResponseCode'', JString ''ErrorItemNotFound'')]])]"
  let ?m' = "JObject [(''Items'',
                       JArray [JObject [(''ResponseCode'', JString ''NoError''),
                                        (''__type'', JString ''GetFolderResponseMessage'')],
                               JObject [(''__type'', JString ''GetFolderResponseMessage''),
                                        (''ResponseCode'', JString ''ErrorItemNotFound'')]])]"
  let ?b = "[(''ResponseMessages'', ?m), (''Diagnostics'', JString ''none'')]"
  let ?b' = "[(''ResponseMessages'', ?m'), (''Diagnostics'', JString ''none'')]"
  let ?c = "[(''ResponseMessages'', JObject [(''ResponseCode'', JString ''NoError'')])]"
  have h1: "je_SingleType (Response exOp) = Some ?st" by code_simp
  have h2: "ewsTypes exReg (jt_Type ?st) = Some exResponse" by code_simp
  have h2': "ewsTypes exReg ''GetFolderResponseType'' = Some exResponse" by code_simp
  have h3: "distinct (map fst (TypeByElementName exResponse))" by code_simp
  have t: "je_JsonName (Response exOp) @ ''Message'' = ''GetFolderResponseMessage''"
    by code_simp
  have run: "stampBody exReg exOp ?b = Inr ?b'" by code_simp
  have k: "''ResponseMessages'' \<in> fst ` set (TypeByElementName exResponse)" by code_simp
  have g: "map_of ?b ''ResponseMessages'' = Some ?m" by simp
  have g': "map_of ?b' ''ResponseMessages'' = Some ?m'" by simp
  have c1: "map_of ?c ''ResponseMessages'' = Some (JObject [(''ResponseCode'', JString ''NoError'')])"
    by simp
  have c2: "map_of [(''ResponseCode'', JString ''NoError'')] ''Items'' = None" by simp
  from C2_response_items_are_stamped [of exOp ?st exReg exResponse ?b] h1 h2 h3
  have "\<forall>bdy' n. stampBody exReg exOp ?b = Inr bdy' \<longrightarrow>
           map_of bdy' n =
             (if n \<in> fst ` set (TypeByElementName exResponse)
              then (case map_of ?b n of
                      None \<Rightarrow> None
                    | Some v \<Rightarrow> stampedChild (je_JsonName (Response exOp) @ ''Message'') v)
              else map_of ?b n)"
    by blast
  with run have "map_of ?b' ''ResponseMessages'' =
             (if ''ResponseMessages'' \<in> fst ` set (TypeByElementName exResponse)
              then (case map_of ?b ''ResponseMessages'' of
                      None \<Rightarrow> None
                    | Some v \<Rightarrow> stampedChild (je_JsonName (Response exOp) @ ''Message'') v)
              else map_of ?b ''ResponseMessages'')"
    by blast
  with k g g' t have s: "stampedChild ''GetFolderResponseMessage'' ?m = Some ?m'"
    by (simp only: if_True option.case)
  from C2_response_items_are_stamped [of exOp ?st exReg exResponse ?c] h1 h2 h3
  have "\<forall>n cm. n \<in> fst ` set (TypeByElementName exResponse) \<and> map_of ?c n = Some (JObject cm)
           \<and> map_of cm ''Items'' = None \<longrightarrow> (\<exists>e. stampBody exReg exOp ?c = Inl e)"
    by blast
  with k c1 c2 have e: "\<exists>e. stampBody exReg exOp ?c = Inl e" by blast
  from h1 h2' h3 run s e show ?thesis by (intro conjI)
qed

theorem C2_object_without_Items_counterexample:
  "\<not> declaresItems exDiagnostics
   \<and> \<not> declaresItems exResponse
   \<and> map_of (TypeByElementName exResponse) ''Diagnostics''
       = Some \<lparr>xe_JsonName = ''Diagnostics'', xe_Type = ''DiagnosticsType'', xe_IsList = False\<rparr>
   \<and> ewsTypes exReg ''DiagnosticsType'' = Some exDiagnostics
   \<and> stampBody exReg exOp [(''Diagnostics'', JObject [(''Text'', JString ''x'')])]
       = Inl (CannotFindItems ''Diagnostics'')
   \<and> JSON2SOAP exReg
       \<lparr>msg_Type = '''', msg_Header = None,
        msg_Body = Some [(''Diagnostics'', JObject [(''Text'', JString ''x'')])]\<rparr> exOp
       = Inl (CannotFindItems ''Diagnostics'')"
  by code_simp

subsection \<open>The text of a number\<close>

lemma isValidNumber_zero: "isValidNumber ''0''"
  by code_simp

lemma encodeNumber_Inr:
  "encodeNumber t = Inr text \<longleftrightarrow> (t = '''' \<or> isValidNumber t) \<and> text = written t"
  using isValidNumber_zero by (auto simp: encodeNumber_def written_def Let_def)

lemma encodeNumber_Inl:
  "encodeNumber t = Inl e \<longleftrightarrow> t \<noteq> '''' \<and> \<not> isValidNumber t \<and> e = InvalidNumberLiteral t"
  using isValidNumber_zero by (auto simp: encodeNumber_def Let_def)

lemma Marshal_sound:
  "\<forall>texts. Marshal v = Inr texts \<longrightarrow>
     (\<forall>t \<in> set (numbers v). t = '''' \<or> isValidNumber t) \<and> texts = map written (numbers v)"
  "\<forall>texts. marshalList vs = Inr texts \<longrightarrow>
     (\<forall>t \<in> set (numbersList vs). t = '''' \<or> isValidNumber t)
     \<and> texts = map written (numbersList vs)"
  "\<forall>texts. marshalMembers ms = Inr texts \<longrightarrow>
     (\<forall>t \<in> set (numbersMembers ms). t = '''' \<or> isValidNumber t)
     \<and> texts = map written (numbersMembers ms)"
proof (induct v and vs and ms rule: Marshal_marshalList_marshalMembers.induct)
  case (1 numStr)
  then show ?case by (auto simp: encodeNumber_Inr split: sum.splits)
next
  case (10 v vs)
  then show ?case by (auto split: sum.splits)
next
  case (12 m ms)
  then show ?case by (auto split: sum.splits)
qed simp_all

lemma Marshal_complete:
  "(\<forall>t \<in> set (numbers v). t = '''' \<or> isValidNumber t) \<longrightarrow>
     Marshal v = Inr (map written (numbers v))"
  "(\<forall>t \<in> set (numbersList vs). t = '''' \<or> isValidNumber t) \<longrightarrow>
     marshalList vs = Inr (map written (numbersList vs))"
  "(\<forall>t \<in> set (numbersMembers ms). t = '''' \<or> isValidNumber t) \<longrightarrow>
     marshalMembers ms = Inr (map written (numbersMembers ms))"
proof (induct v and vs and ms rule: Marshal_marshalList_marshalMembers.induct)
  case (1 numStr)
  have "encodeNumber numStr = Inr (written numStr) \<longleftrightarrow> numStr = '''' \<or> isValidNumber numStr"
    by (simp add: encodeNumber_Inr)
  then show ?case by auto
next
  case (10 v vs)
  then show ?case by auto
next
  case (12 m ms)
  then show ?case by auto
qed simp_all

lemma skipDigits_consumes:
  "\<exists>p. s = p @ skipDigits s \<and> set p \<subseteq> set ''0123456789+-.eE''"
proof (intro exI conjI)
  show "s = takeWhile isDigit s @ skipDigits s" by (simp add: skipDigits_def)
  show "set (takeWhile isDigit s) \<subseteq> set ''0123456789+-.eE''"
  proof
    fix c
    assume "c \<in> set (takeWhile isDigit s)"
    then have "isDigit c" by (rule set_takeWhileD [THEN conjunct2])
    then show "c \<in> set ''0123456789+-.eE''" by (auto simp: isDigit_def)
  qed
qed

lemma skipInteger_consumes:
  assumes "skipInteger s = Some r"
  shows "\<exists>p. s = p @ r \<and> set p \<subseteq> set ''0123456789+-.eE''"
proof (cases s)
  case Nil
  with assms show ?thesis by (simp add: skipInteger_def)
next
  case (Cons c s')
  show ?thesis
  proof (cases "c = CHR ''0''")
    case True
    with assms Cons have "s = [c] @ r" by (simp add: skipInteger_def)
    with True show ?thesis by (intro exI [of _ "[c]"]) simp
  next
    case False
    with assms Cons have d: "isDigit c" and r: "r = skipDigits s'"
      by (auto simp: skipInteger_def split: if_splits)
    from skipDigits_consumes [of s'] obtain p
      where p: "s' = p @ skipDigits s'" "set p \<subseteq> set ''0123456789+-.eE''" by blast
    from d have "c \<in> set ''0123456789+-.eE''" by (auto simp: isDigit_def)
    with p r Cons show ?thesis by (intro exI [of _ "c # p"]) simp
  qed
qed

lemma skipFraction_consumes:
  "\<exists>p. s = p @ skipFraction s \<and> set p \<subseteq> set ''0123456789+-.eE''"
proof (cases "\<exists>c' r. s = CHR ''.'' # c' # r \<and> isDigit c'")
  case True
  then obtain c' r where s: "s = CHR ''.'' # c' # r" and d: "isDigit c'" by blast
  then have f: "skipFraction s = skipDigits r" by (simp add: skipFraction_def)
  from skipDigits_consumes [of r] obtain p
    where p: "r = p @ skipDigits r" "set p \<subseteq> set ''0123456789+-.eE''" by blast
  from d have "c' \<in> set ''0123456789+-.eE''" by (auto simp: isDigit_def)
  with p s f show ?thesis by (intro exI [of _ "CHR ''.'' # c' # p"]) simp
next
  case False
  then have "skipFraction s = s"
    by (auto simp: skipFraction_def split: list.splits)
  then show ?thesis by (intro exI [of _ "[]"]) simp
qed

lemma skipExponent_consumes:
  assumes "skipExponent s = Some r"
  shows "\<exists>p. s = p @ r \<and> set p \<subseteq> set ''0123456789+-.eE''"
proof (cases "\<exists>c c' s'. s = c # c' # s' \<and> (c = CHR ''e'' \<or> c = CHR ''E'')")
  case False
  with assms have "r = s" by (auto simp: skipExponent_def split: list.splits if_splits)
  then show ?thesis by (intro exI [of _ "[]"]) simp
next
  case True
  then obtain c c' s' where s: "s = c # c' # s'" and e: "c = CHR ''e'' \<or> c = CHR ''E''"
    by blast
  from e have ce: "c \<in> set ''0123456789+-.eE''" by auto
  show ?thesis
  proof (cases "c' = CHR ''+'' \<or> c' = CHR ''-''")
    case True
    with assms s e have r: "r = skipDigits s'"
      by (auto simp: skipExponent_def split: if_splits)
    from skipDigits_consumes [of s'] obtain p
      where p: "s' = p @ skipDigits s'" "set p \<subseteq> set ''0123456789+-.eE''" by blast
    from True have "c' \<in> set ''0123456789+-.eE''" by auto
    with p r s ce show ?thesis by (intro exI [of _ "c # c' # p"]) simp
  next
    case False
    with assms s e have r: "r = skipDigits (c' # s')"
      by (auto simp: skipExponent_def split: if_splits)
    from skipDigits_consumes [of "c' # s'"] obtain p
      where p: "c' # s' = p @ skipDigits (c' # s')" "set p \<subseteq> set ''0123456789+-.eE''"
      by blast
    with r s ce show ?thesis by (intro exI [of _ "c # p"]) simp
  qed
qed

lemma isValidNumber_chars:
  assumes "isValidNumber s"
  shows "set s \<subseteq> set ''0123456789+-.eE''"
proof -
  define s1 where "s1 = (if hd s = CHR ''-'' then tl s else s)"
  from assms have ne: "s \<noteq> []" by (auto simp: isValidNumber_def)
  from assms ne obtain s2 where i: "skipInteger s1 = Some s2"
    and e: "skipExponent (skipFraction s2) = Some []"
    by (auto simp: isValidNumber_def Let_def s1_def split: if_splits option.splits)
  from skipExponent_consumes [OF e] have 1: "set (skipFraction s2) \<subseteq> set ''0123456789+-.eE''"
    by auto
  from skipFraction_consumes [of s2] obtain p
    where "s2 = p @ skipFraction s2" "set p \<subseteq> set ''0123456789+-.eE''" by blast
  with 1 have 2: "set s2 \<subseteq> set ''0123456789+-.eE''"
    by (metis Un_least set_append)
  from skipInteger_consumes [OF i] obtain q
    where "s1 = q @ s2" "set q \<subseteq> set ''0123456789+-.eE''" by blast
  with 2 have 3: "set s1 \<subseteq> set ''0123456789+-.eE''"
    by (metis Un_least set_append)
  show ?thesis
  proof (cases "hd s = CHR ''-''")
    case True
    with ne have "s = CHR ''-'' # s1" by (cases s) (simp_all add: s1_def)
    then have "set s = insert (CHR ''-'') (set s1)" by (metis list.simps(15))
    with 3 show ?thesis by auto
  next
    case False
    with 3 show ?thesis by (simp add: s1_def)
  qed
qed

lemma Trim_none:
  assumes "\<forall>c \<in> set s. c \<notin> set cs"
  shows "Trim s cs = s"
proof -
  have k: "\<And>xs. \<forall>c \<in> set xs. c \<notin> set cs \<Longrightarrow> dropWhile (\<lambda>c. c \<in> set cs) xs = xs"
  proof -
    fix xs :: string
    assume "\<forall>c \<in> set xs. c \<notin> set cs"
    then show "dropWhile (\<lambda>c. c \<in> set cs) xs = xs" by (cases xs) simp_all
  qed
  from assms have "dropWhile (\<lambda>c. c \<in> set cs) s = s" by (rule k)
  moreover from assms have "dropWhile (\<lambda>c. c \<in> set cs) (rev s) = rev s" by (intro k) simp
  ultimately show ?thesis by (simp add: Trim_def)
qed

lemma isValidNumber_Trim:
  assumes "isValidNumber t"
  shows "Trim t cutset = t"
proof (rule Trim_none, rule ballI)
  fix c
  assume "c \<in> set t"
  with isValidNumber_chars [OF assms] have "c \<in> set ''0123456789+-.eE''" by blast
  then show "c \<notin> set cutset" by (auto simp: cutset_def)
qed

lemma processElement_number:
  assumes "IsSimple typ" and "SimpleType typ = T_NUM" and "TextAttr typ = ''''"
    and "Trim s cutset \<noteq> ''''"
  shows "processElement reg (TCharData s # TEnd n # d) el (Some typ)
           = Inr (JNumber (Trim s cutset), d)"
proof -
  from assms(1,3) have i: "initRetObject reg el typ = Inr \<lparr>obj = None, listObj = [], ret = RNil\<rparr>"
    by (simp add: initRetObject_def)
  from assms(2,3)
  have c: "charData typ (Trim s cutset) \<lparr>obj = None, listObj = [], ret = RNil\<rparr>
             = Inr \<lparr>obj = None, listObj = [], ret = RVal (JNumber (Trim s cutset))\<rparr>"
    by (simp add: charData_def convertSimpleToJson_def simple_kinds)
  from assms(4) i c
  have "elementLoop reg (TCharData s # TEnd n # d) el typ \<lparr>obj = None, listObj = [], ret = RNil\<rparr>
          = Inr (JNumber (Trim s cutset), d)"
    by (simp add: endElement_def)
  with i show ?thesis by simp
qed

lemma processJson_number:
  assumes "je_Types edesc = None" and "je_SingleType edesc = Some jtyp"
    and "ewsTypes reg (jt_Type jtyp) = Some typ"
    and "IsSimple typ" and "SimpleType typ = T_NUM" and "TextAttr typ = ''''"
    and "jt_XmlTag jtyp \<noteq> ''''"
  shows "processJson reg enc (JNumber t) edesc
           = Inr (enc\<lparr>enc_out := enc_out enc
                    @ [TStart (StartElement (XmlName '''' (jt_XmlTag jtyp)) []), TCharData t,
                       TEnd (XmlName '''' (jt_XmlTag jtyp))]\<rparr>)"
proof -
  have "processJson reg enc (JNumber t) edesc = processSimple reg enc (JNumber t) edesc"
    by (simp add: processJson.simps)
  also from assms have "\<dots> = Inr (enc\<lparr>enc_out := enc_out enc
                    @ [TStart (StartElement (XmlName '''' (jt_XmlTag jtyp)) []), TCharData t,
                       TEnd (XmlName '''' (jt_XmlTag jtyp))]\<rparr>)"
    by (simp add: processSimple_def IsCharData_def EmitStart_def EmitEnd_def
        processJsonChardata_def simple_kinds)
  finally show ?thesis .
qed

lemma SOAP2JSON_Marshal:
  assumes "SOAP2JSON reg toks = Inr (m, op')"
  shows "\<exists>texts. Marshal (msgObject m) = Inr texts"
  using assms by (auto simp: SOAP2JSON_def split: sum.splits if_splits)

text \<open>
  C8, as the code has it. For a number-kind simple type, \<^verbatim>\<open>processElement\<close> stores the
  character data of the element, trimmed of the blanks around it, as the \<^verbatim>\<open>json.Number\<close>
  with exactly that text. \<^verbatim>\<open>SOAP2JSON\<close> returns a message only when \<^verbatim>\<open>json.Marshal\<close>
  has written it: every \<^verbatim>\<open>json.Number\<close> of the message is written with its own text
  (the empty one as \<^verbatim>\<open>0\<close>) and is a number literal of JSON, and a stored text that is
  not one is refused with an error. \<^verbatim>\<open>processJson\<close> emits a \<^verbatim>\<open>json.Number\<close> as one
  element whose character data is the text of the number, byte for byte. Hence a JSON
  number goes to XML and back with the same text, and the character data of an XML number
  goes to JSON and back to XML with the same text when, trimmed, it is a number literal of
  JSON.
\<close>

theorem C8_number_text_preserved_or_refused:
  "IsSimple typ \<and> SimpleType typ = T_NUM \<and> TextAttr typ = ''''
   \<and> je_Types edesc = None \<and> je_SingleType edesc = Some jtyp
   \<and> ewsTypes reg (jt_Type jtyp) = Some typ \<and> jt_XmlTag jtyp \<noteq> '''' \<longrightarrow>
     (Trim s cutset \<noteq> '''' \<longrightarrow>
        processElement reg (TCharData s # TEnd n # d) el (Some typ)
          = Inr (JNumber (Trim s cutset), d))
     \<and> (\<forall>m op'. SOAP2JSON reg toks = Inr (m, op') \<longrightarrow>
           Marshal (msgObject m) = Inr (map written (numbers (msgObject m)))
           \<and> (\<forall>u \<in> set (numbers (msgObject m)). u = '''' \<or> isValidNumber u))
     \<and> processJson reg enc (JNumber t) edesc
         = Inr (enc\<lparr>enc_out := enc_out enc
                  @ [TStart (StartElement (XmlName '''' (jt_XmlTag jtyp)) []), TCharData t,
                     TEnd (XmlName '''' (jt_XmlTag jtyp))]\<rparr>)
     \<and> (isValidNumber t \<longrightarrow>
           processElement reg (TCharData t # TEnd (XmlName '''' (jt_XmlTag jtyp)) # d)
               (StartElement (XmlName '''' (jt_XmlTag jtyp)) []) (Some typ)
             = Inr (JNumber t, d)
           \<and> Marshal (JNumber t) = Inr [t])
     \<and> (isValidNumber (Trim s cutset) \<longrightarrow>
           processElement reg (TCharData s # TEnd n # d) el (Some typ)
             = Inr (JNumber (Trim s cutset), d)
           \<and> Marshal (JNumber (Trim s cutset)) = Inr [Trim s cutset]
           \<and> processJson reg enc (JNumber (Trim s cutset)) edesc
               = Inr (enc\<lparr>enc_out := enc_out enc
                        @ [TStart (StartElement (XmlName '''' (jt_XmlTag jtyp)) []),
                           TCharData (Trim s cutset),
                           TEnd (XmlName '''' (jt_XmlTag jtyp))]\<rparr>))
     \<and> (Trim s cutset \<noteq> '''' \<and> \<not> isValidNumber (Trim s cutset) \<longrightarrow>
           processElement reg (TCharData s # TEnd n # d) el (Some typ)
             = Inr (JNumber (Trim s cutset), d)
           \<and> Marshal (JNumber (Trim s cutset)) = Inl (InvalidNumberLiteral (Trim s cutset)))"
proof (intro impI)
  assume h: "IsSimple typ \<and> SimpleType typ = T_NUM \<and> TextAttr typ = ''''
   \<and> je_Types edesc = None \<and> je_SingleType edesc = Some jtyp
   \<and> ewsTypes reg (jt_Type jtyp) = Some typ \<and> jt_XmlTag jtyp \<noteq> ''''"
  then have ty: "IsSimple typ" "SimpleType typ = T_NUM" "TextAttr typ = ''''"
    and ed: "je_Types edesc = None" "je_SingleType edesc = Some jtyp"
      "ewsTypes reg (jt_Type jtyp) = Some typ" "jt_XmlTag jtyp \<noteq> ''''"
    by simp_all
  note pe = processElement_number [OF ty]
  note pj = processJson_number [OF ed(1,2,3) ty ed(4)]
  have valid_ne: "\<And>u. isValidNumber u \<Longrightarrow> u \<noteq> ''''" by (auto simp: isValidNumber_def)
  have valid_m: "\<And>u. isValidNumber u \<Longrightarrow> Marshal (JNumber u) = Inr [u]"
  proof -
    fix u
    assume v: "isValidNumber u"
    with valid_ne have "encodeNumber u = Inr u" by (simp add: encodeNumber_Inr written_def)
    then show "Marshal (JNumber u) = Inr [u]" by simp
  qed
  have A: "Trim s cutset \<noteq> '''' \<longrightarrow>
        processElement reg (TCharData s # TEnd n # d) el (Some typ)
          = Inr (JNumber (Trim s cutset), d)"
    using pe by blast
  have B: "\<forall>m op'. SOAP2JSON reg toks = Inr (m, op') \<longrightarrow>
           Marshal (msgObject m) = Inr (map written (numbers (msgObject m)))
           \<and> (\<forall>u \<in> set (numbers (msgObject m)). u = '''' \<or> isValidNumber u)"
  proof (intro allI impI)
    fix m op'
    assume "SOAP2JSON reg toks = Inr (m, op')"
    then obtain texts where "Marshal (msgObject m) = Inr texts"
      using SOAP2JSON_Marshal by blast
    with Marshal_sound(1) [of "msgObject m"]
    show "Marshal (msgObject m) = Inr (map written (numbers (msgObject m)))
           \<and> (\<forall>u \<in> set (numbers (msgObject m)). u = '''' \<or> isValidNumber u)"
      by blast
  qed
  have D: "isValidNumber t \<longrightarrow>
           processElement reg (TCharData t # TEnd (XmlName '''' (jt_XmlTag jtyp)) # d)
               (StartElement (XmlName '''' (jt_XmlTag jtyp)) []) (Some typ)
             = Inr (JNumber t, d)
           \<and> Marshal (JNumber t) = Inr [t]"
  proof
    assume v: "isValidNumber t"
    then have tr: "Trim t cutset = t" by (rule isValidNumber_Trim)
    with valid_ne [OF v] have "Trim t cutset \<noteq> ''''" by simp
    from pe [OF this, of reg "XmlName '''' (jt_XmlTag jtyp)" d
        "StartElement (XmlName '''' (jt_XmlTag jtyp)) []"] tr valid_m [OF v]
    show "processElement reg (TCharData t # TEnd (XmlName '''' (jt_XmlTag jtyp)) # d)
               (StartElement (XmlName '''' (jt_XmlTag jtyp)) []) (Some typ)
             = Inr (JNumber t, d)
           \<and> Marshal (JNumber t) = Inr [t]"
      by simp
  qed
  have E: "isValidNumber (Trim s cutset) \<longrightarrow>
           processElement reg (TCharData s # TEnd n # d) el (Some typ)
             = Inr (JNumber (Trim s cutset), d)
           \<and> Marshal (JNumber (Trim s cutset)) = Inr [Trim s cutset]
           \<and> processJson reg enc (JNumber (Trim s cutset)) edesc
               = Inr (enc\<lparr>enc_out := enc_out enc
                        @ [TStart (StartElement (XmlName '''' (jt_XmlTag jtyp)) []),
                           TCharData (Trim s cutset),
                           TEnd (XmlName '''' (jt_XmlTag jtyp))]\<rparr>)"
  proof
    assume v: "isValidNumber (Trim s cutset)"
    from pe [OF valid_ne [OF v]] valid_m [OF v] pj
    show "processElement reg (TCharData s # TEnd n # d) el (Some typ)
             = Inr (JNumber (Trim s cutset), d)
           \<and> Marshal (JNumber (Trim s cutset)) = Inr [Trim s cutset]
           \<and> processJson reg enc (JNumber (Trim s cutset)) edesc
               = Inr (enc\<lparr>enc_out := enc_out enc
                        @ [TStart (StartElement (XmlName '''' (jt_XmlTag jtyp)) []),
                           TCharData (Trim s cutset),
                           TEnd (XmlName '''' (jt_XmlTag jtyp))]\<rparr>)"
      by (intro conjI)
  qed
  have F: "Trim s cutset \<noteq> '''' \<and> \<not> isValidNumber (Trim s cutset) \<longrightarrow>
           processElement reg (TCharData s # TEnd n # d) el (Some typ)
             = Inr (JNumber (Trim s cutset), d)
           \<and> Marshal (JNumber (Trim s cutset)) = Inl (InvalidNumberLiteral (Trim s cutset))"
  proof
    assume a: "Trim s cutset \<noteq> '''' \<and> \<not> isValidNumber (Trim s cutset)"
    then have "encodeNumber (Trim s cutset) = Inl (InvalidNumberLiteral (Trim s cutset))"
      by (simp add: encodeNumber_Inl)
    then have "Marshal (JNumber (Trim s cutset)) = Inl (InvalidNumberLiteral (Trim s cutset))"
      by simp
    with pe a
    show "processElement reg (TCharData s # TEnd n # d) el (Some typ)
             = Inr (JNumber (Trim s cutset), d)
           \<and> Marshal (JNumber (Trim s cutset)) = Inl (InvalidNumberLiteral (Trim s cutset))"
      by blast
  qed
  from A B pj D E F
  show "(Trim s cutset \<noteq> '''' \<longrightarrow>
        processElement reg (TCharData s # TEnd n # d) el (Some typ)
          = Inr (JNumber (Trim s cutset), d))
     \<and> (\<forall>m op'. SOAP2JSON reg toks = Inr (m, op') \<longrightarrow>
           Marshal (msgObject m) = Inr (map written (numbers (msgObject m)))
           \<and> (\<forall>u \<in> set (numbers (msgObject m)). u = '''' \<or> isValidNumber u))
     \<and> processJson reg enc (JNumber t) edesc
         = Inr (enc\<lparr>enc_out := enc_out enc
                  @ [TStart (StartElement (XmlName '''' (jt_XmlTag jtyp)) []), TCharData t,
                     TEnd (XmlName '''' (jt_XmlTag jtyp))]\<rparr>)
     \<and> (isValidNumber t \<longrightarrow>
           processElement reg (TCharData t # TEnd (XmlName '''' (jt_XmlTag jtyp)) # d)
               (StartElement (XmlName '''' (jt_XmlTag jtyp)) []) (Some typ)
             = Inr (JNumber t, d)
           \<and> Marshal (JNumber t) = Inr [t])
     \<and> (isValidNumber (Trim s cutset) \<longrightarrow>
           processElement reg (TCharData s # TEnd n # d) el (Some typ)
             = Inr (JNumber (Trim s cutset), d)
           \<and> Marshal (JNumber (Trim s cutset)) = Inr [Trim s cutset]
           \<and> processJson reg enc (JNumber (Trim s cutset)) edesc
               = Inr (enc\<lparr>enc_out := enc_out enc
                        @ [TStart (StartElement (XmlName '''' (jt_XmlTag jtyp)) []),
                           TCharData (Trim s cutset),
                           TEnd (XmlName '''' (jt_XmlTag jtyp))]\<rparr>))
     \<and> (Trim s cutset \<noteq> '''' \<and> \<not> isValidNumber (Trim s cutset) \<longrightarrow>
           processElement reg (TCharData s # TEnd n # d) el (Some typ)
             = Inr (JNumber (Trim s cutset), d)
           \<and> Marshal (JNumber (Trim s cutset)) = Inl (InvalidNumberLiteral (Trim s cutset)))"
    by (intro conjI)
qed

theorem C8_leading_zeros_counterexample:
  "SimpleType exInt = T_NUM
   \<and> map_of (TypeByElementName exFolderShape) ''MaxEntries''
       = Some \<lparr>xe_JsonName = ''MaxEntries'', xe_Type = ''xs:int'', xe_IsList = False\<rparr>
   \<and> ewsTypes exReg ''xs:int'' = Some exInt
   \<and> SOAP2JSON exReg
       [tag ''Envelope'', tag ''Header'', endTag ''Header'', tag ''Body'', tag ''GetFolder'',
        tag ''FolderShape'', tag ''MaxEntries'', TCharData ''007'', endTag ''MaxEntries'',
        endTag ''FolderShape'', endTag ''GetFolder'', endTag ''Body'', endTag ''Envelope'']
       = Inl (InvalidNumberLiteral ''007'')
   \<and> processElement exReg [TCharData '' 42 '', endTag ''MaxEntries'']
         (StartElement (XmlName '''' ''MaxEntries'') []) (Some exInt)
       = Inr (JNumber ''42'', [])"
  by code_simp

theorem C8_number_text_preserved_or_refused_witness:
  "IsSimple exInt \<and> SimpleType exInt = T_NUM \<and> TextAttr exInt = ''''
   \<and> je_Types exSizeElement = None
   \<and> je_SingleType exSizeElement = Some \<lparr>jt_Type = ''xs:int'', jt_XmlTag = ''t:Size''\<rparr>
   \<and> ewsTypes exReg ''xs:int'' = Some exInt
   \<and> processElement exReg [TCharData '' 12345678901234567890.10 '', endTag ''t:Size'']
         (StartElement (XmlName '''' ''t:Size'') []) (Some exInt)
       = Inr (JNumber ''12345678901234567890.10'', [])
   \<and> isValidNumber ''1e400''
   \<and> processJson exReg enc0 (JNumber ''1e400'') exSizeElement
       = Inr \<lparr>enc_out = [tag ''t:Size'', TCharData ''1e400'', endTag ''t:Size''],
              enc_tags = []\<rparr>
   \<and> processElement exReg [TCharData ''1e400'', endTag ''t:Size'']
         (StartElement (XmlName '''' ''t:Size'') []) (Some exInt)
       = Inr (JNumber ''1e400'', [])
   \<and> Marshal (JNumber ''1e400'') = Inr [''1e400'']
   \<and> SOAP2JSON exReg
       [tag ''Envelope'', tag ''Header'', endTag ''Header'', tag ''Body'', tag ''GetFolder'',
        tag ''FolderShape'', tag ''MaxEntries'', TCharData ''12345678901234567890.10'',
        endTag ''MaxEntries'', endTag ''FolderShape'', endTag ''GetFolder'', endTag ''Body'',
        endTag ''Envelope'']
       = Inr (\<lparr>m_type = ''GetFolderJsonRequest:#Exchange'',
               m_Header = Some customHeader,
               m_Body = Some [(''__type'', JString ''GetFolderRequest:#Exchange''),
                              (''FolderShape'',
                               JObject [(''__type'', JString ''FolderResponseShape:#Exchange''),
                                        (''MaxEntries'',
                                         JNumber ''12345678901234567890.10'')])]\<rparr>,
              Some exOp)
   \<and> Marshal (msgObject
        \<lparr>m_type = ''GetFolderJsonRequest:#Exchange'',
         m_Header = Some customHeader,
         m_Body = Some [(''__type'', JString ''GetFolderRequest:#Exchange''),
                        (''FolderShape'',
                         JObject [(''__type'', JString ''FolderResponseShape:#Exchange''),
                                  (''MaxEntries'', JNumber ''12345678901234567890.10'')])]\<rparr>)
       = Inr [''12345678901234567890.10'']
   \<and> JSON2SOAP exReg
       \<lparr>msg_Type = '''', msg_Header = None,
        msg_Body = Some [(''ResponseMessages'',
                          JObject [(''Items'',
                                    JArray [JObject [(''ResponseCode'', JString ''NoError''),
                                                     (''TotalItems'',
                                                      JNumber ''12345678901234567890.10'')]])])]\<rparr>
       exOp
     = Inr [TStart (StartElement soapEnvelopeTag soapXmlns), tag ''soap:Body'',
            tag ''m:GetFolderResponse'', tag ''m:ResponseMessages'',
            tag ''m:GetFolderResponseMessage'',
            tag ''m:ResponseCode'', TCharData ''NoError'', endTag ''m:ResponseCode'',
            tag ''m:TotalItems'', TCharData ''12345678901234567890.10'', endTag ''m:TotalItems'',
            endTag ''m:GetFolderResponseMessage'', endTag ''m:ResponseMessages'',
            endTag ''m:GetFolderResponse'', endTag ''soap:Body'', endTag ''soap:Envelope'']"
proof -
  let ?jt = "\<lparr>jt_Type = ''xs:int'', jt_XmlTag = ''t:Size''\<rparr>"
  let ?s = "'' 12345678901234567890.10 ''"
  let ?el = "StartElement (XmlName '''' ''t:Size'') []"
  let ?toks = "[tag ''Envelope'', tag ''Header'', endTag ''Header'', tag ''Body'', tag ''GetFolder'',
        tag ''FolderShape'', tag ''MaxEntries'', TCharData ''12345678901234567890.10'',
        endTag ''MaxEntries'', endTag ''FolderShape'', endTag ''GetFolder'', endTag ''Body'',
        endTag ''Envelope'']"
  let ?m = "\<lparr>m_type = ''GetFolderJsonRequest:#Exchange'',
         m_Header = Some customHeader,
         m_Body = Some [(''__type'', JString ''GetFolderRequest:#Exchange''),
                        (''FolderShape'',
                         JObject [(''__type'', JString ''FolderResponseShape:#Exchange''),
                                  (''MaxEntries'', JNumber ''12345678901234567890.10'')])]\<rparr>"
  have h1: "IsSimple exInt" by code_simp
  have h2: "SimpleType exInt = T_NUM" by code_simp
  have h3: "TextAttr exInt = ''''" by code_simp
  have h4: "je_Types exSizeElement = None" by code_simp
  have h5: "je_SingleType exSizeElement = Some ?jt" by code_simp
  have h6: "ewsTypes exReg (jt_Type ?jt) = Some exInt" by code_simp
  have h6': "ewsTypes exReg ''xs:int'' = Some exInt" by code_simp
  have h7: "jt_XmlTag ?jt \<noteq> ''''" by simp
  have tr: "Trim ?s cutset = ''12345678901234567890.10''" by code_simp
  have v: "isValidNumber ''1e400''" by code_simp
  have run: "SOAP2JSON exReg ?toks = Inr (?m, Some exOp)" by code_simp
  have nums: "map written (numbers (msgObject ?m)) = [''12345678901234567890.10'']"
    by code_simp
  note inst = C8_number_text_preserved_or_refused
      [of exInt exSizeElement ?jt exReg ?s "XmlName '''' ''t:Size''" "[]" ?el ?toks enc0 "''1e400''",
       THEN mp, OF conjI [OF h1 conjI [OF h2 conjI [OF h3 conjI [OF h4 conjI [OF h5
         conjI [OF h6 h7]]]]]]]
  from inst [THEN conjunct1] tr
  have a: "processElement exReg [TCharData ?s, endTag ''t:Size''] ?el (Some exInt)
       = Inr (JNumber ''12345678901234567890.10'', [])"
    by (simp add: endTag_def)
  from inst [THEN conjunct2, THEN conjunct1] run
  have "Marshal (msgObject ?m) = Inr (map written (numbers (msgObject ?m)))" by blast
  with nums have b: "Marshal (msgObject ?m) = Inr [''12345678901234567890.10'']" by simp
  from inst [THEN conjunct2, THEN conjunct2, THEN conjunct1]
  have c: "processJson exReg enc0 (JNumber ''1e400'') exSizeElement
       = Inr \<lparr>enc_out = [tag ''t:Size'', TCharData ''1e400'', endTag ''t:Size''],
              enc_tags = []\<rparr>"
    by (simp add: enc0_def tag_def endTag_def)
  from inst [THEN conjunct2, THEN conjunct2, THEN conjunct2, THEN conjunct1] v
  have d: "processElement exReg [TCharData ''1e400'', endTag ''t:Size''] ?el (Some exInt)
       = Inr (JNumber ''1e400'', [])
     \<and> Marshal (JNumber ''1e400'') = Inr [''1e400'']"
    by (simp add: endTag_def)
  have j: "JSON2SOAP exReg
       \<lparr>msg_Type = '''', msg_Header = None,
        msg_Body = Some [(''ResponseMessages'',
                          JObject [(''Items'',
                                    JArray [JObject [(''ResponseCode'', JString ''NoError''),
                                                     (''TotalItems'',
                                                      JNumber ''12345678901234567890.10'')]])])]\<rparr>
       exOp
     = Inr [TStart (StartElement soapEnvelopeTag soapXmlns), tag ''soap:Body'',
            tag ''m:GetFolderResponse'', tag ''m:ResponseMessages'',
            tag ''m:GetFolderResponseMessage'',
            tag ''m:ResponseCode'', TCharData ''NoError'', endTag ''m:ResponseCode'',
            tag ''m:TotalItems'', TCharData ''12345678901234567890.10'', endTag ''m:TotalItems'',
            endTag ''m:GetFolderResponseMessage'', endTag ''m:ResponseMessages'',
            endTag ''m:GetFolderResponse'', endTag ''soap:Body'', endTag ''soap:Envelope'']"
    by code_simp
  from h1 h2 h3 h4 h5 h6' a v c d run b j show ?thesis by (intro conjI) simp_all
qed

end
